theory Spec2Isabelle
  imports Complex_Main "HOL-Library.Word" "HOL-Library.Sublist" "HOL-Library.Log_Nat"
begin

section \<open>The edit history of App.tsx\<close>

text \<open>
  The component keeps its session in React state cells. The cells that the handlers
  read and write are collected in one record; every handler is a function from the
  state before the event to the state after it (React applies the setter calls of one
  handler together, so only the state after the whole handler is observable).

  Snapshots are the data URLs that the component stores in \<open>history\<close>; the cursor
  \<open>historyIndex\<close> is a JavaScript number that only ever holds integers.
\<close>

text \<open>
  The texts that \<open>setError\<close> receives. \<open>UploadFirst\<close> is "Please upload an image first."
  (the spec's InvalidState), \<open>JobFailed m\<close> is the message built in the catch block of
  handleGenerate from the message \<open>m\<close> of the exception (the spec's ExternalEditFailure),
  \<open>CouldNotRead\<close> is "Could not read the uploaded file.", \<open>FailedToRead\<close> is
  "Failed to read the image file." and \<open>InvalidImageFile\<close> is
  "Please upload a valid image file (PNG, JPG, etc.).".
\<close>

datatype message = UploadFirst | JobFailed string | CouldNotRead | FailedToRead | InvalidImageFile

record upload_file =
  file_name :: string
  file_type :: string

record app_state =
  originalFile :: "upload_file option"
  history :: "string list"
  historyIndex :: int
  isLoading :: bool
  error :: "message option"

text \<open>The initial values of the useState cells (lines 76-80).\<close>

definition initial_state :: app_state where
  "initial_state =
     \<lparr>originalFile = None, history = [], historyIndex = - 1, isLoading = False, error = None\<rparr>"

text \<open>
  \<open>xs[i]\<close> of JavaScript for an integer \<open>i\<close>: \<open>undefined\<close> (here \<open>None\<close>) outside
  the array, also at \<open>-1\<close>.
\<close>

definition js_index :: "'a list \<Rightarrow> int \<Rightarrow> 'a option" where
  "js_index xs i = (if 0 \<le> i \<and> i < int (length xs) then Some (xs ! nat i) else None)"

text \<open>
  \<open>xs.slice(0, e)\<close> of JavaScript: a negative end counts from the end of the array, and
  the result is clipped to the array.
\<close>

definition js_slice0 :: "'a list \<Rightarrow> int \<Rightarrow> 'a list" where
  "js_slice0 xs e = take (nat (if e < 0 then int (length xs) + e else e)) xs"

text \<open>\<open>!s\<close> for a value that is a string or \<open>undefined\<close>: true for \<open>undefined\<close> and for \<open>""\<close>.\<close>

definition falsy :: "string option \<Rightarrow> bool" where
  "falsy v = (case v of None \<Rightarrow> True | Some s \<Rightarrow> s = [])"

text \<open>Line 84: \<open>history[historyIndex] ?? null\<close>, the spec's Current().\<close>

definition currentImageSrc :: "app_state \<Rightarrow> string option" where
  "currentImageSrc st = js_index (history st) (historyIndex st)"

text \<open>handleReset (lines 252-260), the spec's Reset.\<close>

definition handleReset :: "app_state \<Rightarrow> app_state" where
  "handleReset st = st\<lparr>originalFile := None, history := [], historyIndex := - 1, error := None\<rparr>"

text \<open>
  processFile (lines 137-159). The FileReader either calls \<open>onerror\<close> or calls
  \<open>onload\<close> with \<open>e.target?.result\<close>, which may be missing; the guard
  \<open>if (base64String)\<close> rejects a missing and an empty result alike.
  The spec's Load(s) is the call on an image file whose read delivers \<open>s\<close>.
\<close>

datatype read_outcome = OnError | OnLoad "string option"

definition processFile :: "upload_file \<Rightarrow> read_outcome \<Rightarrow> app_state \<Rightarrow> app_state" where
  "processFile f rd st =
     (if prefix ''image/'' (file_type f) then
        (case rd of
           OnError \<Rightarrow> st\<lparr>error := Some FailedToRead\<rparr>
         | OnLoad None \<Rightarrow> st\<lparr>error := Some CouldNotRead\<rparr>
         | OnLoad (Some base64String) \<Rightarrow>
             if base64String \<noteq> [] then
               (handleReset st)\<lparr>originalFile := Some f, history := [base64String],
                                historyIndex := 0, error := None\<rparr>
             else st\<lparr>error := Some CouldNotRead\<rparr>)
      else st\<lparr>error := Some InvalidImageFile\<rparr>)"

text \<open>
  What the model call of handleGenerate answers (lines 207-220): the promise rejects
  with a message, or the response has no part with \<open>inlineData\<close>, or the first such
  part carries a MIME type and base64 data.
\<close>

datatype ai_response = CallRejected string | NoImagePart | ImagePart string string

text \<open>
  The value of the try block of handleGenerate up to line 231: an exception with its
  message, or \<open>finalImageSrc\<close>.
\<close>

datatype attempt = Threw string | Produced string

text \<open>
  Lines 204-241 without the history update. \<open>keyer\<close> stands for makeMagentaTransparent
  as a whole (image load, pixel loop, PNG encoding); awaiting its promise gives the
  resolved string or throws the error it rejects with.
\<close>

definition finalImage :: "(string \<Rightarrow> attempt) \<Rightarrow> bool \<Rightarrow> ai_response \<Rightarrow> attempt" where
  "finalImage keyer isBgRemoval response =
     (case response of
        CallRejected m \<Rightarrow> Threw m
      | NoImagePart \<Rightarrow> Threw ''AI did not return a valid image. Please try again.''
      | ImagePart resMimeType base64ImageBytes \<Rightarrow>
          (let aiResultImageSrc = ''data:'' @ resMimeType @ '';base64,'' @ base64ImageBytes
           in if isBgRemoval then keyer aiResultImageSrc else Produced aiResultImageSrc))"

text \<open>
  handleGenerate (lines 187-250) on the outcome of its try block. The guard of line 189
  returns before anything else happens; the catch block only sets the error; lines
  233-236 are the spec's Append(finalImageSrc).
\<close>

definition handleGenerate :: "attempt \<Rightarrow> app_state \<Rightarrow> app_state" where
  "handleGenerate outcome st =
     (let currentImage = js_index (history st) (historyIndex st)
      in if falsy currentImage then st\<lparr>error := Some UploadFirst\<rparr>
         else
           (case outcome of
              Threw m \<Rightarrow> st\<lparr>isLoading := False, error := Some (JobFailed m)\<rparr>
            | Produced finalImageSrc \<Rightarrow>
                (let newHistory = js_slice0 (history st) (historyIndex st + 1) @ [finalImageSrc]
                 in st\<lparr>history := newHistory, historyIndex := int (length newHistory) - 1,
                       isLoading := False, error := None\<rparr>)))"

text \<open>handleUndo and handleRedo (lines 262-272) and the flags of lines 274-276.\<close>

definition handleUndo :: "app_state \<Rightarrow> app_state" where
  "handleUndo st =
     (if historyIndex st > 0 then st\<lparr>historyIndex := historyIndex st - 1\<rparr> else st)"

definition handleRedo :: "app_state \<Rightarrow> app_state" where
  "handleRedo st =
     (if historyIndex st < int (length (history st)) - 1
      then st\<lparr>historyIndex := historyIndex st + 1\<rparr> else st)"

definition isUndoable :: "app_state \<Rightarrow> bool" where
  "isUndoable st = (historyIndex st > 0)"

definition isRedoable :: "app_state \<Rightarrow> bool" where
  "isRedoable st = (historyIndex st < int (length (history st)) - 1)"

definition canDownload :: "app_state \<Rightarrow> bool" where
  "canDownload st = (historyIndex st > 0)"

text \<open>
  The invariant of the data model: the cursor is \<open>-1\<close> exactly when no image is loaded
  and otherwise points into the sequence.
\<close>

definition history_inv :: "app_state \<Rightarrow> bool" where
  "history_inv st =
     (- 1 \<le> historyIndex st \<and> historyIndex st < int (length (history st))
      \<and> ((historyIndex st = - 1) = (history st = [])))"

text \<open>Every stored snapshot is a non-empty string (the component only stores data URLs).\<close>

definition snapshots_nonempty :: "app_state \<Rightarrow> bool" where
  "snapshots_nonempty st = ([] \<notin> set (history st))"

text \<open>An uploaded image file, for the examples.\<close>

definition demo_file :: upload_file where
  "demo_file = \<lparr>file_name = ''photo.png'', file_type = ''image/png''\<rparr>"

section \<open>The chroma key of App.tsx\<close>

subsection \<open>JavaScript numbers\<close>

text \<open>
  A JavaScript number is an IEEE 754 binary64 value. A finite one is modelled by the
  rational number it denotes, and every arithmetic operation of the source is the exact
  operation followed by \<open>fl\<close>, the rounding to the nearest binary64 value with ties to
  the even significand: the value is written with the exponent of its binade (not below
  -1022, where the subnormal numbers start) and 52 fraction bits. Infinities and NaN are
  not modelled: on byte channels no operation of the program overflows or divides by
  zero. The channels of a pixel are the bytes of the \<open>Uint8ClampedArray\<close> of the canvas,
  and array indices are natural numbers.
\<close>

type_synonym double = rat

type_synonym byte = "8 word"

text \<open>The exponent \<open>e\<close> with \<open>2 ^ e \<le> x < 2 ^ (e + 1)\<close>, for positive \<open>x\<close>.\<close>

definition floor_log2 :: "rat \<Rightarrow> int" where
  "floor_log2 x =
     (case quotient_of x of (a, b) \<Rightarrow>
        (let e = bitlen a - bitlen b in if x < 2 powi e then e - 1 else e))"

definition round_half_even :: "rat \<Rightarrow> int" where
  "round_half_even m =
     (let n = \<lfloor>m\<rfloor>; f = m - of_int n
      in if f < 1 / 2 then n else if 1 / 2 < f then n + 1 else if even n then n else n + 1)"

definition fl :: "rat \<Rightarrow> double" where
  "fl x =
     (if x = 0 then 0
      else (let e = max (floor_log2 \<bar>x\<bar>) (- 1022); q = 2 powi (e - 52)
            in of_int (round_half_even (x / q)) * q))"

subsection \<open>The conversion and the matcher\<close>

text \<open>
  rgbToHsl (lines 51-72), each operation rounded. The switch on \<open>max\<close> takes the first
  case that equals it and leaves \<open>h\<close> at 0 when none does.
\<close>

definition rgbToHsl :: "double \<Rightarrow> double \<Rightarrow> double \<Rightarrow> double \<times> double \<times> double" where
  "rgbToHsl r0 g0 b0 =
     (let r = fl (r0 / 255); g = fl (g0 / 255); b = fl (b0 / 255);
          max' = max r (max g b);
          min' = min r (min g b);
          l = fl (fl (max' + min') / 2)
      in if max' \<noteq> min' then
           (let d = fl (max' - min');
                s = (if l > 1 / 2 then fl (d / fl (fl (2 - max') - min'))
                     else fl (d / fl (max' + min')));
                h = (if max' = r then fl (fl (fl (g - b) / d) + (if g < b then 6 else 0))
                     else if max' = g then fl (fl (fl (b - r) / d) + 2)
                     else if max' = b then fl (fl (fl (r - g) / d) + 4)
                     else 0)
            in (fl (fl (h / 6) * 360), s, l))
         else (fl (0 * 360), 0, l))"

text \<open>
  Lines 102-106 and 113-124: the classification of one pixel from its R, G and B bytes.
  The thresholds are local constants of makeMagentaTransparent; the literals \<open>0.15\<close> and
  \<open>0.95\<close> denote the nearest binary64 values.
\<close>

definition isBackground :: "byte \<Rightarrow> byte \<Rightarrow> byte \<Rightarrow> bool" where
  "isBackground r g b =
     (let magentaHue = 300; hueTolerance = 25; minSaturation = 1 / 4;
          minLightness = fl (15 / 100); maxLightness = fl (95 / 100)
      in case rgbToHsl (of_nat (unat r)) (of_nat (unat g)) (of_nat (unat b)) of (h, s, l) \<Rightarrow>
        (let hueDiff = \<bar>fl (h - magentaHue)\<bar>;
             hueDistance = min hueDiff (fl (360 - hueDiff))
         in hueDistance \<le> hueTolerance \<and> s \<ge> minSaturation
            \<and> l \<ge> minLightness \<and> l \<le> maxLightness))"

subsection \<open>The pixel loop\<close>

text \<open>
  The loop of lines 108-127 over the flat RGBA array, from index \<open>i\<close> in steps of 4,
  for any classification \<open>matches\<close> of the R, G and B bytes of a pixel.
  The image data of a canvas has four bytes per pixel; were the array to end inside a
  pixel, a missing channel would read as \<open>undefined\<close>, the test would fail on NaN, and
  a write past the end of a typed array is ignored, as \<open>list_update\<close> is.
\<close>

function keyLoop :: "(byte \<Rightarrow> byte \<Rightarrow> byte \<Rightarrow> bool) \<Rightarrow> nat \<Rightarrow> byte list \<Rightarrow> byte list" where
  "keyLoop matches i data =
     (if i < length data then
        keyLoop matches (i + 4)
          (if i + 2 < length data \<and> matches (data ! i) (data ! (i + 1)) (data ! (i + 2))
           then data[i + 3 := 0] else data)
      else data)"
  by pat_completeness auto
termination
  by (relation "measure (\<lambda>(matches, i, data). length data - i)") auto

declare keyLoop.simps [simp del]

text \<open>The pixel pass of makeMagentaTransparent: the loop from index 0 with its own test.\<close>

definition chromaKeyPass :: "byte list \<Rightarrow> byte list" where
  "chromaKeyPass data = keyLoop isBackground 0 data"

text \<open>Pixel \<open>p\<close> of a flat RGBA array.\<close>

definition pixel :: "byte list \<Rightarrow> nat \<Rightarrow> byte \<times> byte \<times> byte \<times> byte" where
  "pixel data p = (data ! (4 * p), data ! (4 * p + 1), data ! (4 * p + 2), data ! (4 * p + 3))"

text \<open>
  makeMagentaTransparent (lines 86-135). Loading the image and reading the canvas either
  fails (\<open>img.onerror\<close>, or no 2D context) or delivers the pixel array; \<open>toDataURL\<close> is
  the PNG encoding of the canvas after \<open>putImageData\<close>.
\<close>

datatype image_load = LoadError string | NoContext | Loaded "byte list"

definition makeMagentaTransparent ::
    "(string \<Rightarrow> image_load) \<Rightarrow> (byte list \<Rightarrow> string) \<Rightarrow> string \<Rightarrow> attempt" where
  "makeMagentaTransparent load toDataURL sourceImageSrc =
     (case load sourceImageSrc of
        LoadError err \<Rightarrow> Threw (''Failed to load image for magenta removal: '' @ err)
      | NoContext \<Rightarrow> Threw ''Could not get canvas context''
      | Loaded data \<Rightarrow> Produced (toDataURL (chromaKeyPass data)))"

subsection \<open>The conversion and the matcher as the spec words them\<close>

text \<open>
  The textbook conversion of section 4.1 in exact arithmetic, for comparison with
  rgbToHsl: the hue is 60 times \<open>(g - b) / d mod 6\<close> when red is the maximum, 60 times
  \<open>(b - r) / d + 2\<close> when green is, and 60 times \<open>(r - g) / d + 4\<close> when blue is.
  \<open>fmod6\<close> is \<open>mod 6\<close> on rational numbers.
\<close>

definition fmod6 :: "rat \<Rightarrow> rat" where
  "fmod6 x = x - 6 * of_int \<lfloor>x / 6\<rfloor>"

definition standard_hsl :: "rat \<Rightarrow> rat \<Rightarrow> rat \<Rightarrow> rat \<times> rat \<times> rat" where
  "standard_hsl r0 g0 b0 =
     (let r = r0 / 255; g = g0 / 255; b = b0 / 255;
          mx = max r (max g b); mn = min r (min g b);
          l = (mx + mn) / 2; d = mx - mn
      in if mx = mn then (0, 0, l)
         else (if mx = r then 60 * fmod6 ((g - b) / d)
               else if mx = g then 60 * ((b - r) / d + 2)
               else 60 * ((r - g) / d + 4),
               if l > 1 / 2 then d / (2 - mx - mn) else d / (mx + mn),
               l))"

text \<open>
  The matcher of section 4.2 on an HSL value, with the configuration the spec gives it.
\<close>

record chroma_key_config =
  referenceHue :: rat
  hueTolerance :: rat
  minSaturation :: rat
  minLightness :: rat
  maxLightness :: rat

definition spec_matches :: "chroma_key_config \<Rightarrow> rat \<times> rat \<times> rat \<Rightarrow> bool" where
  "spec_matches cfg hsl =
     (case hsl of (h, s, l) \<Rightarrow>
        (let d = \<bar>h - referenceHue cfg\<bar>; hueDistance = min d (360 - d)
         in hueDistance \<le> hueTolerance cfg \<and> s \<ge> minSaturation cfg
            \<and> l \<ge> minLightness cfg \<and> l \<le> maxLightness cfg))"

section \<open>Properties of the edit history\<close>

lemma js_index_minus_one: "js_index xs (- 1) = None"
  by (simp add: js_index_def)

lemma js_index_in_range:
  "0 \<le> i \<Longrightarrow> i < int (length xs) \<Longrightarrow> js_index xs i = Some (xs ! nat i)"
  by (simp add: js_index_def)

lemma js_slice0_in_range: "0 \<le> e \<Longrightarrow> js_slice0 xs e = take (nat e) xs"
  by (simp add: js_slice0_def)

text \<open>
  C7. With the cursor at \<open>-1\<close> the guard of handleGenerate reports "Please upload an
  image first." and returns: whatever the edit would have produced, the snapshot
  sequence, the cursor and every other cell but the error message stay as they were.
\<close>

theorem append_without_base_fails:
  "historyIndex st = - 1 \<Longrightarrow>
     handleGenerate outcome st = st\<lparr>error := Some UploadFirst\<rparr>
     \<and> history (handleGenerate outcome st) = history st
     \<and> historyIndex (handleGenerate outcome st) = historyIndex st"
  by (simp add: handleGenerate_def js_index_minus_one falsy_def)

theorem append_without_base_fails_witness:
  "historyIndex initial_state = - 1
   \<and> handleGenerate (Produced ''data:image/png;base64,QQ=='') initial_state
       = initial_state\<lparr>error := Some UploadFirst\<rparr>
   \<and> history (handleGenerate (Produced ''data:image/png;base64,QQ=='') initial_state) = []
   \<and> historyIndex (handleGenerate (Produced ''data:image/png;base64,QQ=='') initial_state) = - 1"
proof -
  have h: "historyIndex initial_state = - 1"
    by (simp add: initial_state_def)
  from append_without_base_fails [OF h, of "Produced ''data:image/png;base64,QQ==''"] h
  show ?thesis by (simp add: initial_state_def)
qed


subsection \<open>Append\<close>

text \<open>
  With the cursor on a stored, non-empty snapshot the guard of handleGenerate passes, and
  a produced image runs lines 233-236.
\<close>

lemma handleGenerate_Produced_ok:
  assumes "0 \<le> historyIndex st" "historyIndex st < int (length (history st))"
    "history st ! nat (historyIndex st) \<noteq> []"
  shows "handleGenerate (Produced s) st =
           st\<lparr>history := take (nat (historyIndex st) + 1) (history st) @ [s],
              historyIndex := historyIndex st + 1, isLoading := False, error := None\<rparr>"
proof -
  have cur: "\<not> falsy (js_index (history st) (historyIndex st))"
    using assms by (simp add: js_index_in_range falsy_def)
  have sl: "js_slice0 (history st) (historyIndex st + 1) = take (nat (historyIndex st) + 1) (history st)"
    using assms(1) by (simp add: js_slice0_def nat_add_distrib)
  have len: "int (length (take (nat (historyIndex st) + 1) (history st) @ [s])) - 1 = historyIndex st + 1"
    using assms(1,2) by simp
  show ?thesis
    unfolding handleGenerate_def Let_def using cur sl len by simp
qed

text \<open>
  The stored snapshots are never empty: processFile refuses an empty read, and
  handleGenerate stores a string that starts with \<open>data:\<close> or what the keying step
  returns, which is the data URL of a canvas.
\<close>

lemma snapshots_nonempty_initial: "snapshots_nonempty initial_state"
  by (simp add: snapshots_nonempty_def initial_state_def)

lemma snapshots_nonempty_handleReset: "snapshots_nonempty (handleReset st)"
  by (simp add: snapshots_nonempty_def handleReset_def)

lemma snapshots_nonempty_processFile:
  "snapshots_nonempty st \<Longrightarrow> snapshots_nonempty (processFile f rd st)"
  by (simp add: snapshots_nonempty_def processFile_def handleReset_def
      split: read_outcome.split option.split)

lemma snapshots_nonempty_handleUndo:
  "snapshots_nonempty st \<Longrightarrow> snapshots_nonempty (handleUndo st)"
  by (simp add: snapshots_nonempty_def handleUndo_def)

lemma snapshots_nonempty_handleRedo:
  "snapshots_nonempty st \<Longrightarrow> snapshots_nonempty (handleRedo st)"
  by (simp add: snapshots_nonempty_def handleRedo_def)

lemma snapshots_nonempty_handleGenerate:
  assumes "snapshots_nonempty st" and "\<And>s. outcome = Produced s \<Longrightarrow> s \<noteq> []"
  shows "snapshots_nonempty (handleGenerate outcome st)"
proof (cases outcome)
  case (Threw m)
  with assms(1) show ?thesis
    by (simp add: snapshots_nonempty_def handleGenerate_def Let_def)
next
  case (Produced s)
  with assms(2) have "s \<noteq> []" by simp
  moreover have "[] \<notin> set (js_slice0 (history st) (historyIndex st + 1))"
    using assms(1) by (auto simp: snapshots_nonempty_def js_slice0_def dest: in_set_takeD)
  ultimately show ?thesis
    using assms(1) Produced
    by (simp add: snapshots_nonempty_def handleGenerate_def Let_def)
qed

lemma finalImage_nonempty:
  assumes "finalImage keyer bg response = Produced s" and "\<And>u v. keyer u = Produced v \<Longrightarrow> v \<noteq> []"
  shows "s \<noteq> []"
  using assms
  by (auto simp: finalImage_def Let_def split: ai_response.splits if_splits)

text \<open>
  C1. In a history state (the invariant holds) with the cursor at or above 0, on a
  stored snapshot, Append(s) keeps the first \<open>historyIndex + 1\<close> snapshots, drops the
  rest, puts \<open>s\<close> at the end and moves the cursor to the new last index, where \<open>s\<close> is
  then the current image. The scenario of the spec follows: Load(A), Append(B),
  Append(C) gives [A, B, C] with cursor 2; two Undos give cursor 0 with A current; then
  Append(D) gives [A, D] with cursor 1. Snapshots are data URLs and so non-empty, which
  is what the guard \<open>!currentImage\<close> of line 189 relies on.
\<close>

theorem append_truncates_then_appends:
  "(history_inv st \<and> 0 \<le> historyIndex st \<and> history st ! nat (historyIndex st) \<noteq> [] \<longrightarrow>
      history (handleGenerate (Produced s) st)
        = take (nat (historyIndex st) + 1) (history st) @ [s]
      \<and> historyIndex (handleGenerate (Produced s) st)
        = int (length (history (handleGenerate (Produced s) st))) - 1
      \<and> historyIndex (handleGenerate (Produced s) st) = historyIndex st + 1
      \<and> currentImageSrc (handleGenerate (Produced s) st) = Some s)
   \<and> (prefix ''image/'' (file_type f) \<and> A \<noteq> [] \<and> B \<noteq> [] \<longrightarrow>
      (let s1 = processFile f (OnLoad (Some A)) initial_state;
           s3 = handleGenerate (Produced C) (handleGenerate (Produced B) s1);
           s5 = handleUndo (handleUndo s3);
           s6 = handleGenerate (Produced D) s5
       in history s3 = [A, B, C] \<and> historyIndex s3 = 2
          \<and> history s5 = [A, B, C] \<and> historyIndex s5 = 0 \<and> currentImageSrc s5 = Some A
          \<and> history s6 = [A, D] \<and> historyIndex s6 = 1))"
proof (intro conjI impI)
  assume h: "history_inv st \<and> 0 \<le> historyIndex st \<and> history st ! nat (historyIndex st) \<noteq> []"
  then have a: "0 \<le> historyIndex st" "historyIndex st < int (length (history st))"
    "history st ! nat (historyIndex st) \<noteq> []"
    by (simp_all add: history_inv_def)
  note eq = handleGenerate_Produced_ok [OF a, of s]
  show "history (handleGenerate (Produced s) st) = take (nat (historyIndex st) + 1) (history st) @ [s]"
    by (simp add: eq)
  show "historyIndex (handleGenerate (Produced s) st)
        = int (length (history (handleGenerate (Produced s) st))) - 1"
    using a(1,2) by (simp add: eq)
  show "historyIndex (handleGenerate (Produced s) st) = historyIndex st + 1"
    by (simp add: eq)
  show "currentImageSrc (handleGenerate (Produced s) st) = Some s"
    using a(1,2) by (simp add: eq currentImageSrc_def js_index_def nth_append nat_add_distrib)
next
  assume h: "prefix ''image/'' (file_type f) \<and> A \<noteq> [] \<and> B \<noteq> []"
  define s1 where "s1 = processFile f (OnLoad (Some A)) initial_state"
  define s2 where "s2 = handleGenerate (Produced B) s1"
  define s3 where "s3 = handleGenerate (Produced C) s2"
  define s4 where "s4 = handleUndo s3"
  define s5 where "s5 = handleUndo s4"
  define s6 where "s6 = handleGenerate (Produced D) s5"
  have 1: "history s1 = [A]" "historyIndex s1 = 0"
    using h by (simp_all add: s1_def processFile_def handleReset_def initial_state_def)
  have 2: "history s2 = [A, B]" "historyIndex s2 = 1"
    using h 1 by (simp_all add: s2_def handleGenerate_Produced_ok)
  have 3: "history s3 = [A, B, C]" "historyIndex s3 = 2"
    using h 2 by (simp_all add: s3_def handleGenerate_Produced_ok)
  have 4: "history s4 = [A, B, C]" "historyIndex s4 = 1"
    using 3 by (simp_all add: s4_def handleUndo_def)
  have 5: "history s5 = [A, B, C]" "historyIndex s5 = 0"
    using 4 by (simp_all add: s5_def handleUndo_def)
  have 6: "history s6 = [A, D]" "historyIndex s6 = 1"
    using h 5 by (simp_all add: s6_def handleGenerate_Produced_ok)
  have cur: "currentImageSrc s5 = Some A"
    using 5 by (simp add: currentImageSrc_def js_index_def)
  show "let s1 = processFile f (OnLoad (Some A)) initial_state;
           s3 = handleGenerate (Produced C) (handleGenerate (Produced B) s1);
           s5 = handleUndo (handleUndo s3);
           s6 = handleGenerate (Produced D) s5
       in history s3 = [A, B, C] \<and> historyIndex s3 = 2
          \<and> history s5 = [A, B, C] \<and> historyIndex s5 = 0 \<and> currentImageSrc s5 = Some A
          \<and> history s6 = [A, D] \<and> historyIndex s6 = 1"
    using 3 5 6 cur unfolding Let_def s1_def s2_def s3_def s4_def s5_def s6_def by simp
qed

theorem append_truncates_then_appends_witness:
  "history (handleGenerate (Produced ''d'')
      \<lparr>originalFile = Some demo_file, history = [''a'', ''b'', ''c''], historyIndex = 0,
       isLoading = False, error = None\<rparr>) = [''a'', ''d'']
   \<and> historyIndex (handleGenerate (Produced ''d'')
      \<lparr>originalFile = Some demo_file, history = [''a'', ''b'', ''c''], historyIndex = 0,
       isLoading = False, error = None\<rparr>) = 1
   \<and> history (handleGenerate (Produced ''c'') (handleGenerate (Produced ''b'')
        (processFile demo_file (OnLoad (Some ''a'')) initial_state))) = [''a'', ''b'', ''c'']
   \<and> history (handleGenerate (Produced ''d'') (handleUndo (handleUndo
        (handleGenerate (Produced ''c'') (handleGenerate (Produced ''b'')
          (processFile demo_file (OnLoad (Some ''a'')) initial_state)))))) = [''a'', ''d'']"
  using append_truncates_then_appends
    [of "\<lparr>originalFile = Some demo_file, history = [''a'', ''b'', ''c''], historyIndex = 0,
          isLoading = False, error = None\<rparr>" "''d''" demo_file "''a''" "''b''" "''c''" "''d''"]
  by (simp add: history_inv_def demo_file_def Let_def)

subsection \<open>Undo and Redo\<close>

text \<open>
  C6. Undo moves the cursor down by one when it is above 0 and otherwise returns the
  state as it is; Redo moves it up by one when it is below the last index and otherwise
  returns the state as it is. The flags isUndoable and isRedoable (which disable the
  buttons) report exactly these two conditions, and neither handler touches the
  snapshot sequence.
\<close>

theorem undo_redo_move_cursor_only:
  "handleUndo st = (if isUndoable st then st\<lparr>historyIndex := historyIndex st - 1\<rparr> else st)
   \<and> handleRedo st = (if isRedoable st then st\<lparr>historyIndex := historyIndex st + 1\<rparr> else st)
   \<and> isUndoable st = (historyIndex st > 0)
   \<and> isRedoable st = (historyIndex st < int (length (history st)) - 1)
   \<and> history (handleUndo st) = history st
   \<and> history (handleRedo st) = history st"
  by (simp add: handleUndo_def handleRedo_def isUndoable_def isRedoable_def)

theorem undo_redo_move_cursor_only_witness:
  "handleUndo \<lparr>originalFile = None, history = [''a'', ''b''], historyIndex = 0,
               isLoading = False, error = None\<rparr>
     = \<lparr>originalFile = None, history = [''a'', ''b''], historyIndex = 0,
        isLoading = False, error = None\<rparr>
   \<and> handleRedo \<lparr>originalFile = None, history = [''a'', ''b''], historyIndex = 0,
               isLoading = False, error = None\<rparr>
     = \<lparr>originalFile = None, history = [''a'', ''b''], historyIndex = 1,
        isLoading = False, error = None\<rparr>
   \<and> handleRedo \<lparr>originalFile = None, history = [''a'', ''b''], historyIndex = 1,
               isLoading = False, error = None\<rparr>
     = \<lparr>originalFile = None, history = [''a'', ''b''], historyIndex = 1,
        isLoading = False, error = None\<rparr>
   \<and> handleUndo \<lparr>originalFile = None, history = [''a'', ''b''], historyIndex = 1,
               isLoading = False, error = None\<rparr>
     = \<lparr>originalFile = None, history = [''a'', ''b''], historyIndex = 0,
        isLoading = False, error = None\<rparr>"
  using
    undo_redo_move_cursor_only [of "\<lparr>originalFile = None, history = [''a'', ''b''],
      historyIndex = 0, isLoading = False, error = None\<rparr>"]
    undo_redo_move_cursor_only [of "\<lparr>originalFile = None, history = [''a'', ''b''],
      historyIndex = 1, isLoading = False, error = None\<rparr>"]
  by (simp add: isUndoable_def isRedoable_def)

subsection \<open>A failed edit\<close>

text \<open>
  C8. When the try block of handleGenerate throws (the model call rejects, the response
  has no image part, or the keying step fails to load the image), the catch block sets
  the error message and nothing else: the snapshot sequence and the cursor are those of
  the state before the call, in every state.
\<close>

theorem failed_edit_keeps_history:
  "history (handleGenerate (Threw m) st) = history st
   \<and> historyIndex (handleGenerate (Threw m) st) = historyIndex st
   \<and> finalImage keyer bg (CallRejected m) = Threw m
   \<and> finalImage keyer bg NoImagePart = Threw ''AI did not return a valid image. Please try again.''
   \<and> finalImage (makeMagentaTransparent (\<lambda>src. NoContext) toDataURL) True (ImagePart mt d)
       = Threw ''Could not get canvas context''
   \<and> history (handleGenerate (finalImage keyer bg (CallRejected m)) st) = history st
   \<and> historyIndex (handleGenerate (finalImage keyer bg (CallRejected m)) st) = historyIndex st
   \<and> history (handleGenerate (finalImage keyer bg NoImagePart) st) = history st
   \<and> historyIndex (handleGenerate (finalImage keyer bg NoImagePart) st) = historyIndex st"
  by (simp add: handleGenerate_def finalImage_def makeMagentaTransparent_def Let_def)

theorem failed_edit_keeps_history_witness:
  "history (handleGenerate (finalImage (\<lambda>src. Threw []) False NoImagePart)
      \<lparr>originalFile = Some demo_file, history = [''a'', ''b''], historyIndex = 0,
       isLoading = False, error = None\<rparr>) = [''a'', ''b'']
   \<and> historyIndex (handleGenerate (finalImage (\<lambda>src. Threw []) False NoImagePart)
      \<lparr>originalFile = Some demo_file, history = [''a'', ''b''], historyIndex = 0,
       isLoading = False, error = None\<rparr>) = 0"
proof -
  let ?st = "\<lparr>originalFile = Some demo_file, history = [''a'', ''b''],
       historyIndex = 0, isLoading = False, error = None\<rparr>"
  have "history (handleGenerate (finalImage (\<lambda>src. Threw []) False NoImagePart) ?st) = history ?st
     \<and> historyIndex (handleGenerate (finalImage (\<lambda>src. Threw []) False NoImagePart) ?st)
       = historyIndex ?st"
    using failed_edit_keeps_history
      [of "''timeout''" ?st "\<lambda>src. Threw []" False "\<lambda>data. []" "''image/png''" "''QQ==''"]
    by blast
  then show ?thesis by simp
qed

subsection \<open>The cursor invariant\<close>

lemma history_inv_handleGenerate: "history_inv st \<Longrightarrow> history_inv (handleGenerate outcome st)"
proof (cases "falsy (js_index (history st) (historyIndex st))")
  case True
  assume "history_inv st"
  with True show ?thesis
    by (simp add: handleGenerate_def history_inv_def)
next
  case False
  assume inv: "history_inv st"
  from False have rng: "0 \<le> historyIndex st" "historyIndex st < int (length (history st))"
    by (auto simp: js_index_def falsy_def split: if_splits)
  show ?thesis
  proof (cases outcome)
    case (Threw m)
    with False inv show ?thesis
      by (simp add: handleGenerate_def history_inv_def)
  next
    case (Produced s)
    with False rng show ?thesis
      by (simp add: handleGenerate_def history_inv_def js_slice0_def Let_def)
  qed
qed

text \<open>
  C5. The invariant \<open>-1 \<le> historyIndex < length history\<close>, with \<open>historyIndex = -1\<close>
  exactly when the sequence is empty, holds in the initial state and after Reset, and
  Load (processFile, whatever the read delivers), Append (handleGenerate, whatever the
  edit delivers), Undo and Redo keep it.
\<close>

theorem cursor_invariant_preserved:
  "history_inv initial_state
   \<and> history_inv (handleReset st)
   \<and> (history_inv st \<longrightarrow>
        history_inv (processFile f rd st)
        \<and> history_inv (handleGenerate outcome st)
        \<and> history_inv (handleUndo st)
        \<and> history_inv (handleRedo st))"
proof (intro conjI impI)
  show "history_inv initial_state"
    by (simp add: history_inv_def initial_state_def)
  show "history_inv (handleReset st)"
    by (simp add: history_inv_def handleReset_def)
next
  assume inv: "history_inv st"
  show "history_inv (processFile f rd st)"
    using inv
    by (simp add: processFile_def history_inv_def handleReset_def
        split: read_outcome.split option.split)
  show "history_inv (handleGenerate outcome st)"
    using inv by (rule history_inv_handleGenerate)
  show "history_inv (handleUndo st)"
    using inv by (auto simp: handleUndo_def history_inv_def)
  show "history_inv (handleRedo st)"
    using inv by (auto simp: handleRedo_def history_inv_def)
qed

theorem cursor_invariant_preserved_witness:
  "history_inv (handleGenerate (Produced ''d'') (handleUndo
      (handleGenerate (Produced ''b'') (processFile demo_file (OnLoad (Some ''a'')) initial_state))))
   \<and> history_inv (handleRedo (handleUndo
      (handleGenerate (Produced ''b'') (processFile demo_file (OnLoad (Some ''a'')) initial_state))))"
proof -
  let ?s1 = "processFile demo_file (OnLoad (Some ''a'')) initial_state"
  let ?s2 = "handleGenerate (Produced ''b'') ?s1"
  let ?s3 = "handleUndo ?s2"
  have 0: "history_inv initial_state"
    using cursor_invariant_preserved [of initial_state] by simp
  have 1: "history_inv ?s1"
    using 0 cursor_invariant_preserved [of initial_state demo_file "OnLoad (Some ''a'')"] by simp
  have 2: "history_inv ?s2"
    using 1 cursor_invariant_preserved [of ?s1 demo_file OnError "Produced ''b''"] by simp
  have 3: "history_inv ?s3"
    using 2 cursor_invariant_preserved [of ?s2] by simp
  show ?thesis
    using 3 cursor_invariant_preserved [of ?s3 demo_file OnError "Produced ''d''"] by simp
qed

subsection \<open>The length of the sequence\<close>

text \<open>
  C9, as the code has it. Undo and Redo never change the length of the snapshot
  sequence, and neither does a failed edit or an Append refused by the guard. A
  successful Append sets the length to \<open>historyIndex + 2\<close>: the tail beyond the cursor is
  dropped and one snapshot is added, so the sequence grows by at most one. Append is
  not the only operation that changes the length: Reset sets it to 0 and a successful
  Load sets it to 1.
\<close>

theorem length_changed_by_append_reset_load:
  "length (history (handleUndo st)) = length (history st)
   \<and> length (history (handleRedo st)) = length (history st)
   \<and> length (history (handleGenerate (Threw m) st)) = length (history st)
   \<and> (\<not> falsy (currentImageSrc st) \<longrightarrow>
        int (length (history (handleGenerate (Produced s) st))) = historyIndex st + 2
        \<and> length (history (handleGenerate (Produced s) st)) \<le> length (history st) + 1)
   \<and> (falsy (currentImageSrc st) \<longrightarrow>
        length (history (handleGenerate (Produced s) st)) = length (history st))
   \<and> length (history (handleReset st)) = 0
   \<and> (prefix ''image/'' (file_type f) \<and> b \<noteq> [] \<longrightarrow>
        length (history (processFile f (OnLoad (Some b)) st)) = 1)"
proof (intro conjI impI)
  show "length (history (handleUndo st)) = length (history st)"
    by (simp add: handleUndo_def)
  show "length (history (handleRedo st)) = length (history st)"
    by (simp add: handleRedo_def)
  show "length (history (handleGenerate (Threw m) st)) = length (history st)"
    by (simp add: handleGenerate_def)
  show "length (history (handleReset st)) = 0"
    by (simp add: handleReset_def)
next
  assume "falsy (currentImageSrc st)"
  then show "length (history (handleGenerate (Produced s) st)) = length (history st)"
    by (simp add: handleGenerate_def currentImageSrc_def)
next
  assume "prefix ''image/'' (file_type f) \<and> b \<noteq> []"
  then show "length (history (processFile f (OnLoad (Some b)) st)) = 1"
    by (simp add: processFile_def)
next
  assume h: "\<not> falsy (currentImageSrc st)"
  then have rng: "0 \<le> historyIndex st" "historyIndex st < int (length (history st))"
    by (auto simp: currentImageSrc_def js_index_def falsy_def split: if_splits)
  from h have cur: "history st ! nat (historyIndex st) \<noteq> []"
    using rng by (simp add: currentImageSrc_def js_index_def falsy_def)
  note eq = handleGenerate_Produced_ok [OF rng cur, of s]
  show "int (length (history (handleGenerate (Produced s) st))) = historyIndex st + 2"
    using rng by (simp add: eq)
  show "length (history (handleGenerate (Produced s) st)) \<le> length (history st) + 1"
    by (simp add: eq)
qed

theorem length_changed_by_append_reset_load_witness:
  "length (history (handleGenerate (Produced ''d'')
      \<lparr>originalFile = Some demo_file, history = [''a'', ''b'', ''c''], historyIndex = 0,
       isLoading = False, error = None\<rparr>)) = 2
   \<and> length (history (handleGenerate (Produced ''d'') initial_state)) = 0
   \<and> length (history (processFile demo_file (OnLoad (Some ''a''))
      \<lparr>originalFile = Some demo_file, history = [''a'', ''b'', ''c''], historyIndex = 0,
       isLoading = False, error = None\<rparr>)) = 1"
  using
    length_changed_by_append_reset_load
      [of "\<lparr>originalFile = Some demo_file, history = [''a'', ''b'', ''c''], historyIndex = 0,
            isLoading = False, error = None\<rparr>" "''m''" "''d''" demo_file "''a''"]
    length_changed_by_append_reset_load [of initial_state "''m''" "''d''" demo_file "''a''"]
  by (simp add: currentImageSrc_def js_index_def falsy_def demo_file_def initial_state_def)

text \<open>
  The claim as the spec words it ("no operation other than Append changes the length")
  fails on Reset: after loading one image the sequence has length 1, and Reset makes it
  empty.
\<close>

theorem only_append_changes_length_counterexample:
  "length (history (processFile demo_file (OnLoad (Some ''data:image/png;base64,QQ=='')) initial_state)) = 1
   \<and> length (history (handleReset
        (processFile demo_file (OnLoad (Some ''data:image/png;base64,QQ=='')) initial_state))) = 0"
  by (simp add: processFile_def handleReset_def initial_state_def demo_file_def)

section \<open>Properties of the chroma key\<close>

subsection \<open>Rounding to binary64\<close>

lemma two_powi_pos: "0 < (2 :: rat) powi k"
  by (simp add: zero_less_power_int)

lemma two_powi_less: "k < k' \<Longrightarrow> (2 :: rat) powi k < 2 powi k'"
  by (rule power_int_strict_increasing) simp_all

lemma two_powi_le: "k \<le> k' \<Longrightarrow> (2 :: rat) powi k \<le> 2 powi k'"
  by (rule power_int_increasing) simp_all

lemma bitlen_bounds_rat:
  assumes "0 < a"
  shows "(2 :: rat) powi (bitlen a - 1) \<le> of_int a" and "of_int a < (2 :: rat) powi (bitlen a)"
proof -
  from bitlen_bounds [OF assms] have lo: "2 ^ nat (bitlen a - 1) \<le> a" and hi: "a < 2 ^ nat (bitlen a)"
    by simp_all
  have pos: "1 \<le> bitlen a"
    using assms bitlen_eq_zero_iff [of a] bitlen_nonneg [of a] by linarith
  have "(2 :: rat) powi (bitlen a - 1) = of_int (2 ^ nat (bitlen a - 1))"
    using pos by (simp add: power_int_nonneg_exp)
  also have "\<dots> \<le> of_int a"
    using lo by (simp only: of_int_le_iff)
  finally show "(2 :: rat) powi (bitlen a - 1) \<le> of_int a" .
  have "(of_int a :: rat) < of_int (2 ^ nat (bitlen a))"
    using hi by (simp only: of_int_less_iff)
  also have "\<dots> = 2 powi (bitlen a)"
    using pos by (simp add: power_int_nonneg_exp)
  finally show "of_int a < (2 :: rat) powi (bitlen a)" .
qed

lemma floor_log2_bounds:
  assumes "0 < x"
  shows "2 powi (floor_log2 x) \<le> x" and "x < 2 powi (floor_log2 x + 1)"
proof -
  obtain a b where q: "quotient_of x = (a, b)"
    by (cases "quotient_of x")
  have b: "0 < b"
    using q by (rule quotient_of_denom_pos)
  have x: "x = of_int a / of_int b"
    using q by (rule quotient_of_div)
  have a: "0 < a"
    using assms b unfolding x by (simp add: zero_less_divide_iff)
  define e where "e = bitlen a - bitlen b"
  note A = bitlen_bounds_rat [OF a] and B = bitlen_bounds_rat [OF b]
  have lo: "2 powi (e - 1) \<le> x"
  proof -
    have "(2 :: rat) powi (e - 1) = 2 powi (bitlen a - 1) / 2 powi (bitlen b)"
      unfolding e_def by (simp flip: power_int_diff) (simp add: algebra_simps)
    also have "\<dots> \<le> of_int a / of_int b"
      using A(1) B(2) a b by (intro frac_le) (simp_all add: zero_le_power_int)
    finally show ?thesis unfolding x .
  qed
  have hi: "x < 2 powi (e + 1)"
  proof -
    have "of_int a / of_int b < (2 :: rat) powi (bitlen a) / 2 powi (bitlen b - 1)"
      using A(2) B(1) a by (intro frac_less) (simp_all add: two_powi_pos)
    also have "\<dots> = 2 powi (e + 1)"
      unfolding e_def by (simp flip: power_int_diff) (simp add: algebra_simps)
    finally show ?thesis unfolding x .
  qed
  have f: "floor_log2 x = (if x < 2 powi e then e - 1 else e)"
    by (simp add: floor_log2_def q e_def Let_def)
  show "2 powi (floor_log2 x) \<le> x"
    using lo by (simp add: f)
  show "x < 2 powi (floor_log2 x + 1)"
    using hi by (simp add: f)
qed

lemma floor_log2_unique:
  assumes "2 powi e \<le> x" "x < 2 powi (e + 1)"
  shows "floor_log2 x = e"
proof -
  have pos: "0 < x"
    using assms(1) two_powi_pos [of e] by linarith
  note f = floor_log2_bounds [OF pos]
  have "\<not> floor_log2 x + 1 \<le> e"
  proof
    assume "floor_log2 x + 1 \<le> e"
    then have "(2 :: rat) powi (floor_log2 x + 1) \<le> 2 powi e"
      by (rule two_powi_le)
    with f(2) assms(1) show False by linarith
  qed
  moreover have "\<not> e + 1 \<le> floor_log2 x"
  proof
    assume "e + 1 \<le> floor_log2 x"
    then have "(2 :: rat) powi (e + 1) \<le> 2 powi (floor_log2 x)"
      by (rule two_powi_le)
    with f(1) assms(2) show False by linarith
  qed
  ultimately show ?thesis by linarith
qed

lemma floor_log2_mono:
  assumes "0 < x" "x \<le> y"
  shows "floor_log2 x \<le> floor_log2 y"
proof (rule ccontr)
  assume "\<not> floor_log2 x \<le> floor_log2 y"
  then have "floor_log2 y + 1 \<le> floor_log2 x" by simp
  then have "(2 :: rat) powi (floor_log2 y + 1) \<le> 2 powi (floor_log2 x)"
    by (rule two_powi_le)
  moreover have "0 < y" using assms by simp
  ultimately show False
    using floor_log2_bounds(1) [OF assms(1)] floor_log2_bounds(2) [OF \<open>0 < y\<close>] assms(2)
    by linarith
qed

lemma round_half_even_near:
  shows "of_int (round_half_even m) - 1 / 2 \<le> m" and "m \<le> of_int (round_half_even m) + 1 / 2"
proof -
  define n where "n = \<lfloor>m\<rfloor>"
  have f: "of_int n \<le> m" "m < of_int n + 1"
    unfolding n_def by linarith+
  have r: "round_half_even m =
      (if m - of_int n < 1 / 2 then n else if 1 / 2 < m - of_int n then n + 1
       else if even n then n else n + 1)"
    by (simp add: round_half_even_def Let_def n_def)
  show "of_int (round_half_even m) - 1 / 2 \<le> m"
    unfolding r using f by (auto split: if_splits)
  show "m \<le> of_int (round_half_even m) + 1 / 2"
    unfolding r using f by (auto split: if_splits)
qed

lemma round_half_even_of_int [simp]: "round_half_even (of_int n) = n"
  by (simp add: round_half_even_def)

lemma round_half_even_eqI:
  assumes "\<bar>m - of_int n\<bar> < 1 / 2"
  shows "round_half_even m = n"
proof -
  have "\<bar>(of_int (round_half_even m) :: rat) - of_int n\<bar> < 1"
    using round_half_even_near [of m] assms by linarith
  then have "\<bar>(of_int (round_half_even m - n) :: rat)\<bar> < of_int 1"
    by simp
  then have "\<bar>round_half_even m - n\<bar> < 1"
    by (simp only: of_int_abs [symmetric] of_int_less_iff)
  then show ?thesis by simp
qed

lemma round_half_even_mono:
  assumes "m \<le> m'"
  shows "round_half_even m \<le> round_half_even m'"
proof (rule ccontr)
  assume "\<not> round_half_even m \<le> round_half_even m'"
  then have "round_half_even m' + 1 \<le> round_half_even m" by simp
  then have "(of_int (round_half_even m') :: rat) + 1 \<le> of_int (round_half_even m)"
    by (metis of_int_1 of_int_add of_int_le_iff)
  with round_half_even_near(1) [of m] round_half_even_near(2) [of m'] assms
  have "m = m'" "of_int (round_half_even m) = (of_int (round_half_even m') :: rat) + 1"
    by linarith+
  then show False by simp
qed

lemma round_half_even_minus: "round_half_even (- m) = - round_half_even m"
proof (cases "m = of_int \<lfloor>m\<rfloor>")
  case True
  then obtain n where "m = of_int n" ..
  then show ?thesis
    by (simp flip: of_int_minus)
next
  case False
  define n where "n = \<lfloor>m\<rfloor>"
  have f: "of_int n < m" "m < of_int n + 1"
    using False unfolding n_def by linarith+
  have fl: "\<lfloor>- m\<rfloor> = - n - 1"
    using f by (intro floor_unique) simp_all
  show ?thesis
    using f by (auto simp: round_half_even_def Let_def fl n_def [symmetric])
qed

lemma fl_zero [simp]: "fl 0 = 0"
  by (simp add: fl_def)

lemma fl_minus: "fl (- x) = - fl x"
  by (simp add: fl_def Let_def round_half_even_minus)

lemma fl_nonneg:
  assumes "0 \<le> x"
  shows "0 \<le> fl x"
proof (cases "x = 0")
  case False
  define q where "q = (2 :: rat) powi (max (floor_log2 \<bar>x\<bar>) (- 1022) - 52)"
  have q: "0 < q" unfolding q_def by (rule two_powi_pos)
  have "round_half_even 0 \<le> round_half_even (x / q)"
    using assms q by (intro round_half_even_mono) simp
  then have "0 \<le> round_half_even (x / q)"
    using round_half_even_of_int [of 0] by simp
  then have "0 \<le> (of_int (round_half_even (x / q)) :: rat) * q"
    using q by simp
  then show ?thesis
    using False by (simp add: fl_def Let_def q_def)
qed simp

lemma fl_eqI:
  assumes "2 powi e \<le> \<bar>x\<bar>" "\<bar>x\<bar> < 2 powi (e + 1)" "- 1022 \<le> e"
    and "\<bar>x / 2 powi (e - 52) - of_int n\<bar> < 1 / 2"
  shows "fl x = of_int n * 2 powi (e - 52)"
proof -
  have "0 < \<bar>x\<bar>"
    using assms(1) two_powi_pos [of e] by linarith
  then have "x \<noteq> 0"
    by simp
  moreover have "floor_log2 \<bar>x\<bar> = e"
    using assms(1,2) by (rule floor_log2_unique)
  moreover have "round_half_even (x / 2 powi (e - 52)) = n"
    using assms(4) by (rule round_half_even_eqI)
  ultimately show ?thesis
    using assms(3) by (simp add: fl_def Let_def max_def)
qed

lemma fl_eqI':
  assumes "2 powi e \<le> \<bar>x\<bar>" "\<bar>x\<bar> < 2 powi (e + 1)" "- 1022 \<le> e"
    and "\<bar>x / 2 powi (e - 52) - of_int n\<bar> < 1 / 2"
    and "y = of_int n * 2 powi (e - 52)"
  shows "fl x = y"
  using fl_eqI [OF assms(1-4)] assms(5) by simp

lemma fl_1: "fl 1 = 1"
  by (rule fl_eqI' [where e = 0 and n = 4503599627370496]) simp_all

lemma fl_expand:
  assumes "x \<noteq> 0"
  shows "fl x = of_int (round_half_even (x / 2 powi (max (floor_log2 \<bar>x\<bar>) (- 1022) - 52)))
                  * 2 powi (max (floor_log2 \<bar>x\<bar>) (- 1022) - 52)"
  using assms by (simp add: fl_def Let_def)

lemma fl_pos_upper:
  assumes "0 < x"
  shows "fl x \<le> 2 powi (max (floor_log2 x) (- 1022) + 1)"
proof -
  define E where "E = max (floor_log2 x) (- 1022)"
  define q where "q = (2 :: rat) powi (E - 52)"
  have q: "0 < q" unfolding q_def by (rule two_powi_pos)
  have "x < 2 powi (floor_log2 x + 1)"
    using assms by (rule floor_log2_bounds)
  also have "\<dots> \<le> 2 powi (E + 1)"
    unfolding E_def by (rule two_powi_le) simp
  finally have "x / q < 2 powi (E + 1) / q"
    using q by (simp add: divide_strict_right_mono)
  also have "2 powi (E + 1) / q = 2 powi 53"
    unfolding q_def by (simp flip: power_int_diff)
  also have "\<dots> = of_int (2 ^ 53)"
    by simp
  finally have "round_half_even (x / q) \<le> round_half_even (of_int (2 ^ 53))"
    by (intro round_half_even_mono) simp
  then have "round_half_even (x / q) \<le> 2 ^ 53"
    by (simp only: round_half_even_of_int)
  then have "(of_int (round_half_even (x / q)) :: rat) \<le> of_int (2 ^ 53)"
    by (simp only: of_int_le_iff)
  then have "of_int (round_half_even (x / q)) * q \<le> of_int (2 ^ 53) * q"
    using q by (simp only: mult_le_cancel_right_pos)
  also have "of_int (2 ^ 53) * q = 2 powi 53 * 2 powi (E - 52)"
    unfolding q_def by simp
  also have "\<dots> = 2 powi (53 + (E - 52))"
    by (rule power_int_add [symmetric]) simp
  also have "53 + (E - 52) = E + 1"
    by simp
  finally have "of_int (round_half_even (x / q)) * q \<le> 2 powi (E + 1)" .
  moreover have "fl x = of_int (round_half_even (x / q)) * q"
    using fl_expand [of x] assms by (simp add: E_def q_def)
  ultimately show ?thesis
    unfolding E_def by simp
qed

lemma fl_pos_lower:
  assumes "0 < x" "- 1022 \<le> floor_log2 x"
  shows "2 powi (floor_log2 x) \<le> fl x"
proof -
  define E where "E = floor_log2 x"
  define q where "q = (2 :: rat) powi (E - 52)"
  have q: "0 < q" unfolding q_def by (rule two_powi_pos)
  have m: "max (floor_log2 x) (- 1022) = E"
    using assms(2) by (simp add: E_def)
  have "2 powi E \<le> x"
    unfolding E_def using assms(1) by (rule floor_log2_bounds)
  then have "2 powi E / q \<le> x / q"
    using q by (simp add: divide_right_mono)
  moreover have "2 powi E / q = of_int (2 ^ 52)"
    unfolding q_def by (simp flip: power_int_diff)
  ultimately have "round_half_even (of_int (2 ^ 52)) \<le> round_half_even (x / q)"
    by (intro round_half_even_mono) simp
  then have "2 ^ 52 \<le> round_half_even (x / q)"
    by (simp only: round_half_even_of_int)
  then have "(of_int (2 ^ 52) :: rat) \<le> of_int (round_half_even (x / q))"
    by (simp only: of_int_le_iff)
  then have "of_int (2 ^ 52) * q \<le> of_int (round_half_even (x / q)) * q"
    using q by (simp only: mult_le_cancel_right_pos)
  moreover have "of_int (2 ^ 52) * q = 2 powi 52 * 2 powi (E - 52)"
    unfolding q_def by simp
  moreover have "2 powi 52 * 2 powi (E - 52) = (2 :: rat) powi (52 + (E - 52))"
    by (rule power_int_add [symmetric]) simp
  moreover have "52 + (E - 52) = E"
    by simp
  moreover have "fl x = of_int (round_half_even (x / q)) * q"
    using fl_expand [of x] assms(1) by (simp add: m q_def)
  ultimately show ?thesis
    unfolding E_def by simp
qed

lemma fl_mono_pos:
  assumes "0 < x" "x \<le> y"
  shows "fl x \<le> fl y"
proof -
  have y: "0 < y" using assms by simp
  define Ex where "Ex = max (floor_log2 x) (- 1022)"
  define Ey where "Ey = max (floor_log2 y) (- 1022)"
  have le: "Ex \<le> Ey"
    unfolding Ex_def Ey_def using floor_log2_mono [OF assms] by simp
  show ?thesis
  proof (cases "Ex = Ey")
    case True
    define q where "q = (2 :: rat) powi (Ex - 52)"
    have q: "0 < q" unfolding q_def by (rule two_powi_pos)
    have "x / q \<le> y / q"
      using assms(2) q by (simp add: divide_right_mono)
    then have "round_half_even (x / q) \<le> round_half_even (y / q)"
      by (rule round_half_even_mono)
    then have "(of_int (round_half_even (x / q)) :: rat) \<le> of_int (round_half_even (y / q))"
      by (simp only: of_int_le_iff)
    then have "of_int (round_half_even (x / q)) * q \<le> of_int (round_half_even (y / q)) * q"
      using q by (simp only: mult_le_cancel_right_pos)
    moreover have "fl x = of_int (round_half_even (x / q)) * q"
      using fl_expand [of x] assms(1) by (simp add: Ex_def q_def)
    moreover have "fl y = of_int (round_half_even (y / q)) * q"
      using fl_expand [of y] y True by (simp add: Ex_def Ey_def q_def)
    ultimately show ?thesis
      by simp
  next
    case False
    with le have lt: "Ex < Ey" by simp
    then have n: "- 1022 \<le> floor_log2 y" and ey: "Ey = floor_log2 y"
      unfolding Ex_def Ey_def by (simp_all add: max_def split: if_splits)
    have "fl x \<le> 2 powi (Ex + 1)"
      unfolding Ex_def using assms(1) by (rule fl_pos_upper)
    also have "\<dots> \<le> 2 powi Ey"
      using lt by (intro two_powi_le) simp
    also have "\<dots> \<le> fl y"
      unfolding ey using y n by (rule fl_pos_lower)
    finally show ?thesis .
  qed
qed

lemma fl_mono:
  assumes "x \<le> y"
  shows "fl x \<le> fl y"
proof -
  consider "0 < x" | "x \<le> 0" "0 \<le> y" | "y < 0"
    using assms by linarith
  then show ?thesis
  proof cases
    case 1
    then show ?thesis using assms by (rule fl_mono_pos)
  next
    case 2
    have "fl x = - fl (- x)"
      by (simp add: fl_minus)
    moreover have "0 \<le> fl (- x)"
      using 2(1) by (intro fl_nonneg) simp
    moreover have "0 \<le> fl y"
      using 2(2) by (rule fl_nonneg)
    ultimately show ?thesis by simp
  next
    case 3
    have "fl (- y) \<le> fl (- x)"
      using 3 assms by (intro fl_mono_pos) simp_all
    then show ?thesis
      by (simp add: fl_minus)
  qed
qed

lemma round_half_even_tie:
  "round_half_even (of_int k + 1 / 2) = (if even k then k else k + 1)"
proof -
  have "\<lfloor>(of_int k :: rat) + 1 / 2\<rfloor> = k"
    by (intro floor_unique) simp_all
  then show ?thesis
    by (simp add: round_half_even_def Let_def)
qed

lemma fl_tieI:
  assumes "2 powi e \<le> \<bar>x\<bar>" "\<bar>x\<bar> < 2 powi (e + 1)" "- 1022 \<le> e"
    and "x / 2 powi (e - 52) = of_int k + 1 / 2"
    and "y = of_int (if even k then k else k + 1) * 2 powi (e - 52)"
  shows "fl x = y"
proof -
  have "0 < \<bar>x\<bar>"
    using assms(1) two_powi_pos [of e] by linarith
  then have "x \<noteq> 0"
    by simp
  moreover have "floor_log2 \<bar>x\<bar> = e"
    using assms(1,2) by (rule floor_log2_unique)
  ultimately show ?thesis
    using assms(3,5) round_half_even_tie [of k]
    by (simp add: fl_def Let_def max_def assms(4))
qed

lemma fl_2: "fl 2 = 2"
  by (rule fl_eqI' [where e = 1 and n = 4503599627370496]) simp_all

lemma fl_3: "fl 3 = 3"
  by (rule fl_eqI' [where e = 1 and n = 6755399441055744]) simp_all

lemma fl_5: "fl 5 = 5"
  by (rule fl_eqI' [where e = 2 and n = 5629499534213120]) simp_all

lemma fl_256th: "fl (1 / 256) = 1 / 256"
  by (rule fl_eqI' [where e = "- 8" and n = 4503599627370496]) simp_all

lemma fl_hue6_max: "fl (1535 / 256) = 1535 / 256"
  by (rule fl_eqI' [where e = 2 and n = 6751001394544640]) simp_all

lemma fl_hue1_max: "fl (1535 / 1536) = 9001335192726187 / 9007199254740992"
  by (rule fl_eqI' [where e = "- 1" and n = 9001335192726187]) simp_all

lemma fl_hue_max: "fl (405060083672678415 / 1125899906842624) = 23025 / 64"
  by (rule fl_eqI' [where e = 8 and n = 6329063807385600]) simp_all

lemma fl_error_unit:
  assumes "0 \<le> x" "x \<le> 1"
  shows "\<bar>fl x - x\<bar> \<le> 1 / 18014398509481984"
proof -
  consider "x = 0" | "x = 1" | "0 < x" "x < 1"
    using assms by linarith
  then show ?thesis
  proof cases
    case 1
    then show ?thesis by simp
  next
    case 2
    then show ?thesis by (simp add: fl_1)
  next
    case 3
    define E where "E = max (floor_log2 \<bar>x\<bar>) (- 1022)"
    define q where "q = (2 :: rat) powi (E - 52)"
    have q: "0 < q" unfolding q_def by (rule two_powi_pos)
    have "\<not> 0 \<le> floor_log2 x"
    proof
      assume "0 \<le> floor_log2 x"
      then have "(2 :: rat) powi 0 \<le> 2 powi (floor_log2 x)"
        by (rule two_powi_le)
      with floor_log2_bounds(1) [OF 3(1)] 3(2) show False by simp
    qed
    then have "E \<le> - 1"
      using 3(1) by (simp add: E_def)
    then have "q \<le> 2 powi (- 53)"
      unfolding q_def by (intro two_powi_le) simp
    then have qle: "q \<le> 1 / 9007199254740992"
      by simp
    have fx: "fl x = of_int (round_half_even (x / q)) * q"
      using fl_expand [of x] 3(1) by (simp add: E_def q_def)
    have "\<bar>of_int (round_half_even (x / q)) - x / q\<bar> \<le> 1 / 2"
      using round_half_even_near [of "x / q"] by linarith
    then have "\<bar>of_int (round_half_even (x / q)) - x / q\<bar> * q \<le> 1 / 2 * q"
      using q by (simp only: mult_le_cancel_right_pos)
    moreover have "\<bar>of_int (round_half_even (x / q)) - x / q\<bar> * q = \<bar>fl x - x\<bar>"
    proof -
      have "\<bar>of_int (round_half_even (x / q)) - x / q\<bar> * q
          = \<bar>(of_int (round_half_even (x / q)) - x / q) * q\<bar>"
        using q by (simp add: abs_mult)
      also have "(of_int (round_half_even (x / q)) - x / q) * q = fl x - x"
        using q by (simp add: fx left_diff_distrib)
      finally show ?thesis .
    qed
    ultimately show ?thesis
      using qle by linarith
  qed
qed

lemma channel_range: "0 \<le> fl (of_nat (unat c) / 255) \<and> fl (of_nat (unat c) / 255) \<le> 1" for c :: byte
proof -
  have "unat c < 2 ^ LENGTH(8)"
    by (rule unsigned_less)
  then have "unat c \<le> 255" by simp
  then have "(of_nat (unat c) :: rat) \<le> of_nat 255"
    by (simp only: of_nat_le_iff)
  then have "(of_nat (unat c) :: rat) / 255 \<le> 1"
    by (simp del: of_nat_unat)
  then have "fl (of_nat (unat c) / 255) \<le> fl 1"
    by (rule fl_mono)
  moreover have "0 \<le> fl (of_nat (unat c) / 255)"
    by (rule fl_nonneg) (simp del: of_nat_unat)
  ultimately show ?thesis
    by (simp only: fl_1) 
qed

lemma channel_sep:
  fixes c c' :: byte
  assumes "fl (of_nat (unat c) / 255) < fl (of_nat (unat c') / 255)"
  shows "1 / 256 \<le> fl (of_nat (unat c') / 255) - fl (of_nat (unat c) / 255)"
proof -
  have lt: "unat c < unat c'"
  proof (rule ccontr)
    assume "\<not> unat c < unat c'"
    then have "unat c' \<le> unat c" by simp
    then have "(of_nat (unat c') :: rat) \<le> of_nat (unat c)"
      by (simp only: of_nat_le_iff)
    then have "(of_nat (unat c') :: rat) / 255 \<le> of_nat (unat c) / 255"
      by (simp add: divide_right_mono del: of_nat_unat)
    then have "fl (of_nat (unat c') / 255) \<le> fl (of_nat (unat c) / 255)"
      by (rule fl_mono)
    with assms show False by simp
  qed
  have b: "unat c \<le> 255" "unat c' \<le> 255"
    using unsigned_less [of c, where 'a = nat] unsigned_less [of c', where 'a = nat] by simp_all
  define x y :: rat where "x = of_nat (unat c) / 255" and "y = of_nat (unat c') / 255"
  have "unat c + 1 \<le> unat c'" using lt by simp
  then have "(of_nat (unat c + 1) :: rat) \<le> of_nat (unat c')"
    by (simp only: of_nat_le_iff)
  then have d: "x + 1 / 255 \<le> y"
    unfolding x_def y_def by (simp add: field_simps del: of_nat_unat)
  have r: "0 \<le> x" "x \<le> 1" "0 \<le> y" "y \<le> 1"
  proof -
    have "(of_nat (unat c) :: rat) \<le> of_nat 255" "(of_nat (unat c') :: rat) \<le> of_nat 255"
      using b by (simp_all only: of_nat_le_iff)
    then show "0 \<le> x" "x \<le> 1" "0 \<le> y" "y \<le> 1"
      unfolding x_def y_def by (simp_all del: of_nat_unat)
  qed
  have "\<bar>fl x - x\<bar> \<le> 1 / 18014398509481984" "\<bar>fl y - y\<bar> \<le> 1 / 18014398509481984"
    using fl_error_unit [OF r(1,2)] fl_error_unit [OF r(3,4)] .
  with d have "1 / 256 \<le> fl y - fl x"
    by linarith
  then show ?thesis
    unfolding x_def y_def .
qed

lemma fl_minus_1: "fl (- 1) = - 1"
  using fl_minus [of 1] by (simp add: fl_1)

lemma fl_minus_256th: "fl (- (1 / 256)) = - (1 / 256)"
  using fl_minus [of "1 / 256"] by (simp only: fl_256th)

lemma quotient_unit:
  fixes u v mx mn :: rat
  assumes "mn \<le> u" "u \<le> mx" "mn \<le> v" "v \<le> mx" and d: "0 < fl (mx - mn)"
  shows "- 1 \<le> fl (fl (u - v) / fl (mx - mn))" and "fl (fl (u - v) / fl (mx - mn)) \<le> 1"
proof -
  have "fl (u - v) \<le> fl (mx - mn)"
    using assms by (intro fl_mono) simp
  then have "fl (u - v) / fl (mx - mn) \<le> 1"
    using d by (simp add: divide_le_eq)
  then have "fl (fl (u - v) / fl (mx - mn)) \<le> fl 1"
    by (rule fl_mono)
  then show "fl (fl (u - v) / fl (mx - mn)) \<le> 1"
    by (simp only: fl_1)
  have "fl (- (mx - mn)) \<le> fl (u - v)"
    using assms by (intro fl_mono) simp
  then have "- fl (mx - mn) \<le> fl (u - v)"
    by (simp only: fl_minus)
  then have "- 1 \<le> fl (u - v) / fl (mx - mn)"
    using d by (simp add: le_divide_eq)
  then have "fl (- 1) \<le> fl (fl (u - v) / fl (mx - mn))"
    by (rule fl_mono)
  then show "- 1 \<le> fl (fl (u - v) / fl (mx - mn))"
    by (simp only: fl_minus_1)
qed

lemma quotient_nonneg:
  fixes u v D :: rat
  assumes "v \<le> u" "0 < D"
  shows "0 \<le> fl (fl (u - v) / D)"
proof -
  have "0 \<le> fl (u - v)"
    using assms(1) by (intro fl_nonneg) simp
  then have "0 \<le> fl (u - v) / D"
    using assms(2) by simp
  then show ?thesis by (rule fl_nonneg)
qed

lemma quotient_neg:
  fixes u v D :: rat
  assumes "1 / 256 \<le> v - u" "0 < D" "D \<le> 1"
  shows "fl (fl (u - v) / D) \<le> - (1 / 256)"
proof -
  have "fl (u - v) \<le> fl (- (1 / 256))"
    using assms(1) by (intro fl_mono) simp
  then have a: "fl (u - v) \<le> - (1 / 256)"
    by (simp only: fl_minus_256th)
  have "fl (u - v) / D \<le> fl (u - v) / 1"
    using a assms(2,3) by (intro divide_left_mono_neg) simp_all
  with a have "fl (u - v) / D \<le> - (1 / 256)"
    by simp
  then have "fl (fl (u - v) / D) \<le> fl (- (1 / 256))"
    by (rule fl_mono)
  then show ?thesis
    by (simp only: fl_minus_256th)
qed

lemma hue_degrees:
  assumes "0 \<le> h" "h \<le> 1535 / 256"
  shows "0 \<le> fl (fl (h / 6) * 360)" and "fl (fl (h / 6) * 360) < 360"
proof -
  have n: "0 \<le> fl (h / 6)"
    using assms(1) by (intro fl_nonneg) simp
  then show "0 \<le> fl (fl (h / 6) * 360)"
    by (intro fl_nonneg) simp
  have "h / 6 \<le> 1535 / 1536"
    using assms(2) by simp
  then have "fl (h / 6) \<le> fl (1535 / 1536)"
    by (rule fl_mono)
  then have "fl (h / 6) \<le> 9001335192726187 / 9007199254740992"
    by (simp only: fl_hue1_max)
  then have "fl (h / 6) * 360 \<le> 405060083672678415 / 1125899906842624"
    by simp
  then have "fl (fl (h / 6) * 360) \<le> fl (405060083672678415 / 1125899906842624)"
    by (rule fl_mono)
  then have "fl (fl (h / 6) * 360) \<le> 23025 / 64"
    by (simp only: fl_hue_max)
  then show "fl (fl (h / 6) * 360) < 360"
    by simp
qed

subsection \<open>Values of the conversion and of the matcher\<close>

text \<open>
  Each rounding below is checked against its exponent and its integer significand.
\<close>

lemma fl_val_1: "fl (- 300) = - 300"
  by (rule fl_eqI' [where e = 8 and n = "- 5277655813324800"]) simp_all

lemma fl_val_2: "fl (- 180) = - 180"
  by (rule fl_eqI' [where e = 7 and n = "- 6333186975989760"]) simp_all

lemma fl_val_3: "fl (- 90) = - 90"
  by (rule fl_eqI' [where e = 6 and n = "- 6333186975989760"]) simp_all

lemma fl_val_4: "fl (- 60) = - 60"
  by (rule fl_eqI' [where e = 5 and n = "- 8444249301319680"]) simp_all

lemma fl_val_5: "fl (- 1) = - 1"
  by (rule fl_eqI' [where e = 0 and n = "- 4503599627370496"]) simp_all

lemma fl_val_6: "fl (- (494512900260289 / 847736400446211)) = - (5254199565265571 / 9007199254740992)"
  by (rule fl_eqI' [where e = "- 1" and n = "- 5254199565265571"]) simp_all

lemma fl_val_7: "fl (- (1 / 2)) = - (1 / 2)"
  by (rule fl_eqI' [where e = "- 1" and n = "- 4503599627370496"]) simp_all

lemma fl_val_8: "fl (- (918381100483395 / 9007199254740992)) = - (918381100483395 / 9007199254740992)"
  by (rule fl_eqI' [where e = "- 4" and n = "- 7347048803867160"]) simp_all

lemma fl_val_9: "fl (- (1 / 12)) = - (6004799503160661 / 72057594037927936)"
  by (rule fl_eqI' [where e = "- 4" and n = "- 6004799503160661"]) simp_all

lemma fl_val_10: "fl (- (1412894000743685 / 18014398509481984)) = - (1412894000743685 / 18014398509481984)"
  by (rule fl_eqI' [where e = "- 4" and n = "- 5651576002974740"]) simp_all

lemma fl_val_11: "fl (- (494512900260289 / 9007199254740992)) = - (494512900260289 / 9007199254740992)"
  by (rule fl_eqI' [where e = "- 5" and n = "- 7912206404164624"]) simp_all

lemma fl_val_12: "fl (- (1412894000743685 / 36028797018963968)) = - (1412894000743685 / 36028797018963968)"
  by (rule fl_eqI' [where e = "- 5" and n = "- 5651576002974740"]) simp_all

lemma fl_val_13: "fl (2 / 51) = 1412894000743685 / 36028797018963968"
  by (rule fl_eqI' [where e = "- 5" and n = 5651576002974740]) simp_all

lemma fl_val_14: "fl (1412894000743685 / 18014398509481984) = 1412894000743685 / 18014398509481984"
  by (rule fl_eqI' [where e = "- 4" and n = 5651576002974740]) simp_all

lemma fl_val_15: "fl (4 / 51) = 1412894000743685 / 18014398509481984"
  by (rule fl_eqI' [where e = "- 4" and n = 5651576002974740]) simp_all

lemma fl_val_16: "fl (847736400446211 / 9007199254740992) = 847736400446211 / 9007199254740992"
  by (rule fl_eqI' [where e = "- 4" and n = 6781891203569688]) simp_all

lemma fl_val_17: "fl (918381100483395 / 9007199254740992) = 918381100483395 / 9007199254740992"
  by (rule fl_eqI' [where e = "- 4" and n = 7347048803867160]) simp_all

lemma fl_val_18: "fl (2 / 17) = 4238682002231055 / 36028797018963968"
  by (rule fl_eqI' [where e = "- 4" and n = 8477364004462110]) simp_all

lemma fl_val_19: "fl (3 / 20) = 5404319552844595 / 36028797018963968"
  by (rule fl_eqI' [where e = "- 3" and n = 5404319552844595]) simp_all

lemma fl_val_20: "fl (13 / 85) = 1377571650725093 / 9007199254740992"
  by (rule fl_eqI' [where e = "- 3" and n = 5510286602900372]) simp_all

lemma fl_val_21: "fl (1412894000743685 / 9007199254740992) = 1412894000743685 / 9007199254740992"
  by (rule fl_eqI' [where e = "- 3" and n = 5651576002974740]) simp_all

lemma fl_val_22: "fl (3673524401933581 / 18014398509481984) = 3673524401933581 / 18014398509481984"
  by (rule fl_eqI' [where e = "- 3" and n = 7347048803867162]) simp_all

lemma fl_val_23: "fl (918381100483395 / 3673524401933581) = 4503599627370495 / 18014398509481984"
  by (rule fl_eqI' [where e = "- 3" and n = 9007199254740990]) simp_all

lemma fl_val_24: "fl (13 / 51) = 286994093901061 / 1125899906842624"
  by (rule fl_eqI' [where e = "- 2" and n = 4591905502416976]) simp_all

lemma fl_val_25: "fl (847736400446211 / 3320300901747659) = 2299710448018977 / 9007199254740992"
  by (rule fl_eqI' [where e = "- 2" and n = 4599420896037954]) simp_all

lemma fl_val_26: "fl (1 / 3) = 6004799503160661 / 18014398509481984"
  by (rule fl_eqI' [where e = "- 2" and n = 6004799503160661]) simp_all

lemma fl_val_27: "fl (3320300901747659 / 9007199254740992) = 3320300901747659 / 9007199254740992"
  by (rule fl_eqI' [where e = "- 2" and n = 6640601803495318]) simp_all

lemma fl_val_28: "fl (3673524401933581 / 9007199254740992) = 3673524401933581 / 9007199254740992"
  by (rule fl_eqI' [where e = "- 2" and n = 7347048803867162]) simp_all

lemma fl_val_29: "fl (4238682002231055 / 9007199254740992) = 4238682002231055 / 9007199254740992"
  by (rule fl_eqI' [where e = "- 2" and n = 8477364004462110]) simp_all

lemma fl_val_30: "fl (1 / 2) = 1 / 2"
  by (rule fl_eqI' [where e = "- 1" and n = 4503599627370496]) simp_all

lemma fl_val_31: "fl (7 / 12) = 5254199565265579 / 9007199254740992"
  by (rule fl_eqI' [where e = "- 1" and n = 5254199565265579]) simp_all

lemma fl_val_32: "fl (2 / 3) = 6004799503160661 / 9007199254740992"
  by (rule fl_eqI' [where e = "- 1" and n = 6004799503160661]) simp_all

lemma fl_val_33: "fl (196 / 255) = 6923180603644057 / 9007199254740992"
  by (rule fl_eqI' [where e = "- 1" and n = 6923180603644057]) simp_all

lemma fl_val_34: "fl (3673524401933581 / 4503599627370496) = 3673524401933581 / 4503599627370496"
  by (rule fl_eqI' [where e = "- 1" and n = 7347048803867162]) simp_all

lemma fl_val_35: "fl (14 / 17) = 3708846751952173 / 4503599627370496"
  by (rule fl_eqI' [where e = "- 1" and n = 7417693503904346]) simp_all

lemma fl_val_36: "fl (5 / 6) = 7505999378950827 / 9007199254740992"
  by (rule fl_eqI' [where e = "- 1" and n = 7505999378950827]) simp_all

lemma fl_val_37: "fl (44 / 51) = 1942729251022567 / 2251799813685248"
  by (rule fl_eqI' [where e = "- 1" and n = 7770917004090268]) simp_all

lemma fl_val_38: "fl (1524656123849387 / 1688849860263936) = 8131499327196731 / 9007199254740992"
  by (rule fl_eqI' [where e = "- 1" and n = 8131499327196731]) simp_all

lemma fl_val_39: "fl (4238682002231055 / 4503599627370496) = 4238682002231055 / 4503599627370496"
  by (rule fl_eqI' [where e = "- 1" and n = 8477364004462110]) simp_all

lemma fl_val_40: "fl (16 / 17) = 4238682002231055 / 4503599627370496"
  by (rule fl_eqI' [where e = "- 1" and n = 8477364004462110]) simp_all

lemma fl_val_41: "fl (19 / 20) = 4278419646001971 / 4503599627370496"
  by (rule fl_eqI' [where e = "- 1" and n = 8556839292003942]) simp_all

lemma fl_val_42: "fl (2220524816272953 / 2251799813685248) = 2220524816272953 / 2251799813685248"
  by (rule fl_eqI' [where e = "- 1" and n = 8882099265091812]) simp_all

lemma fl_val_43: "fl (1) = 1"
  by (rule fl_eqI' [where e = 0 and n = 4503599627370496]) simp_all

lemma fl_val_44: "fl (2560870376347929 / 2251799813685248) = 2560870376347929 / 2251799813685248"
  by (rule fl_eqI' [where e = 0 and n = 5121740752695858]) simp_all

lemma fl_val_45: "fl (14694097607734325 / 9007199254740992) = 3673524401933581 / 2251799813685248"
  by (rule fl_tieI [where e = 0 and k = 7347048803867162]) simp_all

lemma fl_val_46: "fl (2) = 2"
  by (rule fl_eqI' [where e = 1 and n = 4503599627370496]) simp_all

lemma fl_val_47: "fl (7 / 2) = 7 / 2"
  by (rule fl_eqI' [where e = 1 and n = 7881299347898368]) simp_all

lemma fl_val_48: "fl (4) = 4"
  by (rule fl_eqI' [where e = 2 and n = 4503599627370496]) simp_all

lemma fl_val_49: "fl (5) = 5"
  by (rule fl_eqI' [where e = 2 and n = 5629499534213120]) simp_all

lemma fl_val_50: "fl (48788995963180381 / 9007199254740992) = 1524656123849387 / 281474976710656"
  by (rule fl_eqI' [where e = 2 and n = 6098624495397548]) simp_all

lemma fl_val_51: "fl (426340764724406955 / 72057594037927936) = 6661574448818859 / 1125899906842624"
  by (rule fl_eqI' [where e = 2 and n = 6661574448818859]) simp_all

lemma fl_val_52: "fl (439804651110401 / 17592186044416) = 439804651110401 / 17592186044416"
  by (rule fl_eqI' [where e = 4 and n = 7036874417766416]) simp_all

lemma fl_val_53: "fl (55) = 55"
  by (rule fl_eqI' [where e = 5 and n = 7740561859543040]) simp_all

lemma fl_val_54: "fl (60) = 60"
  by (rule fl_eqI' [where e = 5 and n = 8444249301319680]) simp_all

lemma fl_val_55: "fl (270215977642229745 / 2251799813685248) = 120"
  by (rule fl_eqI' [where e = 6 and n = 8444249301319680]) simp_all

lemma fl_val_56: "fl (180) = 180"
  by (rule fl_eqI' [where e = 7 and n = 6333186975989760]) simp_all

lemma fl_val_57: "fl (236438980436951055 / 1125899906842624) = 210"
  by (rule fl_eqI' [where e = 7 and n = 7388718138654720]) simp_all

lemma fl_val_58: "fl (270215977642229745 / 1125899906842624) = 240"
  by (rule fl_eqI' [where e = 7 and n = 8444249301319680]) simp_all

lemma fl_val_59: "fl (270) = 270"
  by (rule fl_eqI' [where e = 8 and n = 4749890231992320]) simp_all

lemma fl_val_60: "fl (300) = 300"
  by (rule fl_eqI' [where e = 8 and n = 5277655813324800]) simp_all

lemma fl_val_61: "fl (337769972052787215 / 1125899906842624) = 300"
  by (rule fl_eqI' [where e = 8 and n = 5277655813324800]) simp_all

lemma fl_val_62: "fl (305) = 305"
  by (rule fl_eqI' [where e = 8 and n = 5365616743546880]) simp_all

lemma fl_val_63: "fl (365917469723852895 / 1125899906842624) = 5717460464435201 / 17592186044416"
  by (rule fl_eqI' [where e = 8 and n = 5717460464435201]) simp_all

lemma fl_val_64: "fl (5893382324879359 / 17592186044416) = 5893382324879359 / 17592186044416"
  by (rule fl_eqI' [where e = 8 and n = 5893382324879359]) simp_all

lemma fl_val_65: "fl (99923616732282885 / 281474976710656) = 355"
  by (rule fl_eqI' [where e = 8 and n = 6245226045767680]) simp_all

lemma fl_val_66: "fl (360) = 360"
  by (rule fl_eqI' [where e = 8 and n = 6333186975989760]) simp_all

lemmas fl_vals =
  fl_val_1 fl_val_2 fl_val_3 fl_val_4 fl_val_5 fl_val_6 fl_val_7 fl_val_8 fl_val_9
  fl_val_10 fl_val_11 fl_val_12 fl_val_13 fl_val_14 fl_val_15 fl_val_16 fl_val_17
  fl_val_18 fl_val_19 fl_val_20 fl_val_21 fl_val_22 fl_val_23 fl_val_24 fl_val_25
  fl_val_26 fl_val_27 fl_val_28 fl_val_29 fl_val_30 fl_val_31 fl_val_32 fl_val_33
  fl_val_34 fl_val_35 fl_val_36 fl_val_37 fl_val_38 fl_val_39 fl_val_40 fl_val_41
  fl_val_42 fl_val_43 fl_val_44 fl_val_45 fl_val_46 fl_val_47 fl_val_48 fl_val_49
  fl_val_50 fl_val_51 fl_val_52 fl_val_53 fl_val_54 fl_val_55 fl_val_56 fl_val_57
  fl_val_58 fl_val_59 fl_val_60 fl_val_61 fl_val_62 fl_val_63 fl_val_64 fl_val_65
  fl_val_66

lemma rgbToHsl_255_0_0: "rgbToHsl 255 0 0 = (0, 1, 1 / 2)"
  by (simp add: rgbToHsl_def Let_def fl_vals)

lemma isBackground_255_0_0: "\<not> isBackground 255 0 0"
  by (simp add: isBackground_def Let_def rgbToHsl_255_0_0 fl_vals)

lemma rgbToHsl_0_255_0: "rgbToHsl 0 255 0 = (120, 1, 1 / 2)"
  by (simp add: rgbToHsl_def Let_def fl_vals)

lemma isBackground_0_255_0: "\<not> isBackground 0 255 0"
  by (simp add: isBackground_def Let_def rgbToHsl_0_255_0 fl_vals)

lemma rgbToHsl_0_0_255: "rgbToHsl 0 0 255 = (240, 1, 1 / 2)"
  by (simp add: rgbToHsl_def Let_def fl_vals)

lemma isBackground_0_0_255: "\<not> isBackground 0 0 255"
  by (simp add: isBackground_def Let_def rgbToHsl_0_0_255 fl_vals)

lemma rgbToHsl_255_255_255: "rgbToHsl 255 255 255 = (0, 0, 1)"
  by (simp add: rgbToHsl_def Let_def fl_vals)

lemma isBackground_255_255_255: "\<not> isBackground 255 255 255"
  by (simp add: isBackground_def Let_def rgbToHsl_255_255_255 fl_vals)

lemma rgbToHsl_0_0_0: "rgbToHsl 0 0 0 = (0, 0, 0)"
  by (simp add: rgbToHsl_def Let_def fl_vals)

lemma isBackground_0_0_0: "\<not> isBackground 0 0 0"
  by (simp add: isBackground_def Let_def rgbToHsl_0_0_0 fl_vals)

lemma rgbToHsl_65_39_65: "rgbToHsl 65 39 65 = (300, 4503599627370495 / 18014398509481984, 3673524401933581 / 18014398509481984)"
  by (simp add: rgbToHsl_def Let_def fl_vals)

lemma isBackground_65_39_65: "\<not> isBackground 65 39 65"
  by (simp add: isBackground_def Let_def rgbToHsl_65_39_65 fl_vals)

lemma rgbToHsl_220_196_210: "rgbToHsl 220 196 210 = (5717460464435201 / 17592186044416, 2299710448018977 / 9007199254740992, 3673524401933581 / 4503599627370496)"
  by (simp add: rgbToHsl_def Let_def fl_vals)

lemma isBackground_220_196_210: "\<not> isBackground 220 196 210"
  by (simp add: isBackground_def Let_def rgbToHsl_220_196_210 fl_vals)

lemma rgbToHsl_240_0_20: "rgbToHsl 240 0 20 = (355, 1, 4238682002231055 / 9007199254740992)"
  by (simp add: rgbToHsl_def Let_def fl_vals)

lemma isBackground_240_0_20: "\<not> isBackground 240 0 20"
  by (simp add: isBackground_def Let_def rgbToHsl_240_0_20 fl_vals)

lemma rgbToHsl_255_0_255: "rgbToHsl 255 0 255 = (300, 1, 1 / 2)"
  by (simp add: rgbToHsl_def Let_def fl_vals)

lemma isBackground_255_0_255: "isBackground 255 0 255"
  by (simp add: isBackground_def Let_def rgbToHsl_255_0_255 fl_vals)

lemma rgbToHsl_10_20_30: "rgbToHsl 10 20 30 = (210, 1 / 2, 1412894000743685 / 18014398509481984)"
  by (simp add: rgbToHsl_def Let_def fl_vals)

lemma isBackground_10_20_30: "\<not> isBackground 10 20 30"
  by (simp add: isBackground_def Let_def rgbToHsl_10_20_30 fl_vals)

subsection \<open>The conversion to hue, saturation and lightness\<close>

lemma rgbToHsl_bytes:
  fixes r g b :: byte
  defines "cr \<equiv> fl (of_nat (unat r) / 255)"
    and "cg \<equiv> fl (of_nat (unat g) / 255)"
    and "cb \<equiv> fl (of_nat (unat b) / 255)"
  defines "mx \<equiv> max cr (max cg cb)" and "mn \<equiv> min cr (min cg cb)"
  shows "case rgbToHsl (of_nat (unat r)) (of_nat (unat g)) (of_nat (unat b)) of (h, s, l) \<Rightarrow>
           0 \<le> h \<and> h < 360 \<and> 0 \<le> s \<and> s \<le> 1 \<and> 0 \<le> l \<and> l \<le> 1"
    and "mx \<noteq> mn \<Longrightarrow>
           0 < fl (mx - mn) \<and> 0 < fl (mx + mn) \<and> 0 < fl (fl (2 - mx) - mn)"
proof -
  have c: "0 \<le> cr" "cr \<le> 1" "0 \<le> cg" "cg \<le> 1" "0 \<le> cb" "cb \<le> 1"
    unfolding cr_def cg_def cb_def
    using channel_range [of r] channel_range [of g] channel_range [of b] by blast+
  have mm: "mn \<le> cr" "cr \<le> mx" "mn \<le> cg" "cg \<le> mx" "mn \<le> cb" "cb \<le> mx"
    "0 \<le> mn" "mx \<le> 1" "mn \<le> mx"
    using c unfolding mx_def mn_def by auto
  have sep: "1 / 256 \<le> v - u"
    if "u < v" "u = cr \<or> u = cg \<or> u = cb" "v = cr \<or> v = cg \<or> v = cb" for u v
    using that channel_sep [of r g] channel_sep [of r b] channel_sep [of g r]
      channel_sep [of g b] channel_sep [of b r] channel_sep [of b g]
    unfolding cr_def cg_def cb_def by auto
  define l where "l = fl (fl (mx + mn) / 2)"
  have l: "0 \<le> l" "l \<le> 1"
  proof -
    have "0 \<le> fl (mx + mn)"
      using mm by (intro fl_nonneg) simp
    then show "0 \<le> l"
      unfolding l_def by (intro fl_nonneg) simp
    have "fl (mx + mn) \<le> fl 2"
      using mm by (intro fl_mono) simp
    then have "fl (mx + mn) / 2 \<le> 1"
      by (simp add: fl_2)
    then have "l \<le> fl 1"
      unfolding l_def by (rule fl_mono)
    then show "l \<le> 1"
      by (simp only: fl_1)
  qed
  have chrom: "1 / 256 \<le> fl (mx - mn) \<and> fl (mx - mn) \<le> 1
      \<and> 1 / 256 \<le> fl (mx + mn) \<and> 1 / 256 \<le> fl (fl (2 - mx) - mn)
      \<and> fl (mx - mn) \<le> fl (mx + mn) \<and> fl (mx - mn) \<le> fl (fl (2 - mx) - mn)"
    if ne: "mx \<noteq> mn"
  proof -
    have lt: "mn < mx" using ne mm(9) by simp
    have chan: "mn = cr \<or> mn = cg \<or> mn = cb" "mx = cr \<or> mx = cg \<or> mx = cb"
      unfolding mx_def mn_def by (auto simp: max_def min_def)
    have s: "1 / 256 \<le> mx - mn"
      using lt chan by (rule sep)
    have "fl (1 / 256) \<le> fl (mx - mn)"
      using s by (rule fl_mono)
    then have d1: "1 / 256 \<le> fl (mx - mn)"
      by (simp only: fl_256th)
    have "fl (mx - mn) \<le> fl 1"
      using mm by (intro fl_mono) simp
    then have d2: "fl (mx - mn) \<le> 1"
      by (simp only: fl_1)
    have le1: "fl (mx - mn) \<le> fl (mx + mn)"
      using mm by (intro fl_mono) simp
    have "fl 1 \<le> fl (2 - mx)"
      using mm by (intro fl_mono) simp
    then have two: "1 \<le> fl (2 - mx)"
      by (simp only: fl_1)
    have le2: "fl (mx - mn) \<le> fl (fl (2 - mx) - mn)"
      using mm two by (intro fl_mono) simp
    from d1 d2 le1 le2 show ?thesis
      by simp
  qed
  show "mx \<noteq> mn \<Longrightarrow>
           0 < fl (mx - mn) \<and> 0 < fl (mx + mn) \<and> 0 < fl (fl (2 - mx) - mn)"
    using chrom by fastforce
  show "case rgbToHsl (of_nat (unat r)) (of_nat (unat g)) (of_nat (unat b)) of (h, s, l) \<Rightarrow>
           0 \<le> h \<and> h < 360 \<and> 0 \<le> s \<and> s \<le> 1 \<and> 0 \<le> l \<and> l \<le> 1"
  proof (cases "mx = mn")
    case True
    have "rgbToHsl (of_nat (unat r)) (of_nat (unat g)) (of_nat (unat b)) = (0, 0, l)"
      using True
      unfolding rgbToHsl_def Let_def cr_def [symmetric] cg_def [symmetric] cb_def [symmetric]
        mx_def [symmetric] mn_def [symmetric] l_def [symmetric]
      by simp
    with l show ?thesis by simp
  next
    case False
    note ch = chrom [OF False]
    define d where "d = fl (mx - mn)"
    have d: "0 < d" "d \<le> 1" "1 / 256 \<le> d"
      using ch unfolding d_def by simp_all
    define s where "s = (if l > 1 / 2 then fl (d / fl (fl (2 - mx) - mn)) else fl (d / fl (mx + mn)))"
    have s: "0 \<le> s" "s \<le> 1"
    proof -
      have q: "0 \<le> d / D \<and> d / D \<le> 1" if "d \<le> D" for D
        using that d(1) by (simp add: divide_le_eq)
      have r: "0 \<le> fl (d / D) \<and> fl (d / D) \<le> 1" if "d \<le> D" for D
      proof -
        have "0 \<le> fl (d / D)"
          using q [OF that] by (intro fl_nonneg) simp
        moreover have "fl (d / D) \<le> fl 1"
          using q [OF that] by (intro fl_mono) simp
        ultimately show ?thesis by (simp only: fl_1) 
      qed
      from r [of "fl (fl (2 - mx) - mn)"] r [of "fl (mx + mn)"] ch
      show "0 \<le> s" "s \<le> 1"
        unfolding s_def d_def by auto
    qed
    define h6 where "h6 =
        (if mx = cr then fl (fl (fl (cg - cb) / d) + (if cg < cb then 6 else 0))
         else if mx = cg then fl (fl (fl (cb - cr) / d) + 2)
         else if mx = cb then fl (fl (fl (cr - cg) / d) + 4)
         else 0)"
    have dpos: "0 < fl (mx - mn)"
      using d(1) unfolding d_def .
    note qu = quotient_unit [OF _ _ _ _ dpos, folded d_def]
    have h6: "0 \<le> h6 \<and> h6 \<le> 1535 / 256"
    proof (cases "mx = cr")
      case True
      show ?thesis
      proof (cases "cg < cb")
        case lt: True
        have "1 / 256 \<le> cb - cg"
          using lt by (intro sep) simp_all
        then have up: "fl (fl (cg - cb) / d) \<le> - (1 / 256)"
          using d(1,2) by (rule quotient_neg)
        have lo: "- 1 \<le> fl (fl (cg - cb) / d)"
          using mm by (intro qu(1)) simp_all
        have "fl (fl (fl (cg - cb) / d) + 6) \<le> fl (1535 / 256)"
          using up by (intro fl_mono) simp
        moreover have "0 \<le> fl (fl (fl (cg - cb) / d) + 6)"
          using lo by (intro fl_nonneg) simp
        ultimately show ?thesis
          using True lt by (simp add: h6_def fl_hue6_max)
      next
        case ge: False
        have lo: "0 \<le> fl (fl (cg - cb) / d)"
          using ge d(1) by (intro quotient_nonneg) simp_all
        have up: "fl (fl (cg - cb) / d) \<le> 1"
          using mm by (intro qu(2)) simp_all
        have "fl (fl (fl (cg - cb) / d) + 0) \<le> fl 1"
          using up by (intro fl_mono) simp
        moreover have "0 \<le> fl (fl (fl (cg - cb) / d) + 0)"
          using lo by (intro fl_nonneg) simp
        ultimately show ?thesis
          using True ge by (simp add: h6_def fl_1)
      qed
    next
      case nr: False
      show ?thesis
      proof (cases "mx = cg")
        case True
        have lo: "- 1 \<le> fl (fl (cb - cr) / d)" and up: "fl (fl (cb - cr) / d) \<le> 1"
          using mm by (intro qu(1) qu(2); simp)+
        have "fl (fl (fl (cb - cr) / d) + 2) \<le> fl 3"
          using up by (intro fl_mono) simp
        moreover have "0 \<le> fl (fl (fl (cb - cr) / d) + 2)"
          using lo by (intro fl_nonneg) simp
        ultimately show ?thesis
          using nr True by (simp add: h6_def fl_3)
      next
        case ng: False
        show ?thesis
        proof (cases "mx = cb")
          case True
          have lo: "- 1 \<le> fl (fl (cr - cg) / d)" and up: "fl (fl (cr - cg) / d) \<le> 1"
            using mm by (intro qu(1) qu(2); simp)+
          have "fl (fl (fl (cr - cg) / d) + 4) \<le> fl 5"
            using up by (intro fl_mono) simp
          moreover have "0 \<le> fl (fl (fl (cr - cg) / d) + 4)"
            using lo by (intro fl_nonneg) simp
          ultimately show ?thesis
            using nr ng True by (simp add: h6_def fl_5)
        next
          case False
          with nr ng show ?thesis by (simp add: h6_def)
        qed
      qed
    qed
    have "rgbToHsl (of_nat (unat r)) (of_nat (unat g)) (of_nat (unat b))
        = (fl (fl (h6 / 6) * 360), s, l)"
      using False
      unfolding rgbToHsl_def Let_def cr_def [symmetric] cg_def [symmetric] cb_def [symmetric]
        mx_def [symmetric] mn_def [symmetric] l_def [symmetric] d_def [symmetric]
        s_def h6_def
      by simp
    with hue_degrees [of h6] h6 s l show ?thesis
      by simp
  qed
qed

text \<open>
  The value of rgbToHsl written out: the gray case, and otherwise the rounded sector
  formula of the first channel that equals the maximum (one of the three always does).
\<close>

lemma rgbToHsl_formulas:
  fixes r0 g0 b0 :: rat
  defines "cr \<equiv> fl (r0 / 255)" and "cg \<equiv> fl (g0 / 255)" and "cb \<equiv> fl (b0 / 255)"
  defines "mx \<equiv> max cr (max cg cb)" and "mn \<equiv> min cr (min cg cb)"
  shows "rgbToHsl r0 g0 b0 =
     (if mx = mn then (0, 0, fl (fl (mx + mn) / 2))
      else (fl (fl ((if mx = cr then fl (fl (fl (cg - cb) / fl (mx - mn)) + (if cg < cb then 6 else 0))
                     else if mx = cg then fl (fl (fl (cb - cr) / fl (mx - mn)) + 2)
                     else fl (fl (fl (cr - cg) / fl (mx - mn)) + 4)) / 6) * 360),
            if 1 / 2 < fl (fl (mx + mn) / 2) then fl (fl (mx - mn) / fl (fl (2 - mx) - mn))
            else fl (fl (mx - mn) / fl (mx + mn)),
            fl (fl (mx + mn) / 2)))"
proof -
  have third: "mx = cb" if "mx \<noteq> cr" "mx \<noteq> cg"
    using that unfolding mx_def by (auto simp: max_def split: if_splits)
  show ?thesis
    unfolding rgbToHsl_def Let_def cr_def [symmetric] cg_def [symmetric] cb_def [symmetric]
      mx_def [symmetric] mn_def [symmetric]
    using third by auto
qed

text \<open>
  The claim of the spec as it words it, that rgbToHsl equals the textbook conversion,
  fails in the last bits: for the pixel (65, 39, 65) the exact saturation is one quarter,
  and the code returns the binary64 number just below it, 0.24999999999999994.
\<close>

theorem rgbToHsl_equals_standard_counterexample:
  "rgbToHsl 65 39 65
     = (300, 4503599627370495 / 18014398509481984, 3673524401933581 / 18014398509481984)
   \<and> standard_hsl 65 39 65 = (300, 1 / 4, 52 / 255)"
proof
  show "rgbToHsl 65 39 65
     = (300, 4503599627370495 / 18014398509481984, 3673524401933581 / 18014398509481984)"
    by (rule rgbToHsl_65_39_65)
  have "\<lfloor>- 1 / 6 :: rat\<rfloor> = - 1"
    by (intro floor_unique) simp_all
  then have "fmod6 (- 1) = 5"
    by (simp add: fmod6_def)
  then show "standard_hsl 65 39 65 = (300, 1 / 4, 52 / 255)"
    by (simp add: standard_hsl_def Let_def)
qed

text \<open>
  C3, as the code has it. On byte channels rgbToHsl is the standard conversion carried
  out in binary64 arithmetic, every operation rounded to nearest: the lightness is
  \<open>(max + min) / 2\<close>; hue and saturation are 0 when \<open>max = min\<close>; otherwise the saturation
  is \<open>d / (2 - max - min)\<close> above lightness one half and \<open>d / (max + min)\<close> below, the
  hue is the 60-degree sector formula of the first channel (red, green, blue) that is
  the maximum, and no divisor is zero. The hue lies in \<open>[0, 360)\<close>, saturation and
  lightness in \<open>[0, 1]\<close>. The results are the rounded values, not always the exact ones:
  (65, 39, 65) has saturation 0.24999999999999994 and (220, 196, 210) has hue
  325.00000000000006. Pure red, green and blue give exactly the hues 0, 120 and 240 with
  saturation 1 and lightness one half; white and black give saturation 0 with lightness
  1 and 0.
\<close>

theorem rgbToHsl_double_conversion:
  fixes r g b :: byte
  shows "(let r' = fl (of_nat (unat r) / 255); g' = fl (of_nat (unat g) / 255);
              b' = fl (of_nat (unat b) / 255);
              mx = max r' (max g' b'); mn = min r' (min g' b'); d = fl (mx - mn)
          in case rgbToHsl (of_nat (unat r)) (of_nat (unat g)) (of_nat (unat b)) of (h, s, l) \<Rightarrow>
               l = fl (fl (mx + mn) / 2)
               \<and> (mx = mn \<longrightarrow> h = 0 \<and> s = 0)
               \<and> (mx \<noteq> mn \<longrightarrow>
                     0 < d \<and> 0 < fl (mx + mn) \<and> 0 < fl (fl (2 - mx) - mn)
                     \<and> s = (if 1 / 2 < l then fl (d / fl (fl (2 - mx) - mn))
                            else fl (d / fl (mx + mn)))
                     \<and> h = fl (fl ((if mx = r' then fl (fl (fl (g' - b') / d) + (if g' < b' then 6 else 0))
                                    else if mx = g' then fl (fl (fl (b' - r') / d) + 2)
                                    else fl (fl (fl (r' - g') / d) + 4)) / 6) * 360))
               \<and> 0 \<le> h \<and> h < 360 \<and> 0 \<le> s \<and> s \<le> 1 \<and> 0 \<le> l \<and> l \<le> 1)
   \<and> rgbToHsl 255 0 0 = (0, 1, 1 / 2)
   \<and> rgbToHsl 0 255 0 = (120, 1, 1 / 2)
   \<and> rgbToHsl 0 0 255 = (240, 1, 1 / 2)
   \<and> snd (rgbToHsl 255 255 255) = (0, 1)
   \<and> snd (rgbToHsl 0 0 0) = (0, 0)
   \<and> rgbToHsl 65 39 65
       = (300, 4503599627370495 / 18014398509481984, 3673524401933581 / 18014398509481984)
   \<and> rgbToHsl 220 196 210
       = (5717460464435201 / 17592186044416, 2299710448018977 / 9007199254740992,
          3673524401933581 / 4503599627370496)"
proof (intro conjI)
  define cr cg cb where "cr = fl (of_nat (unat r) / 255)" and "cg = fl (of_nat (unat g) / 255)"
    and "cb = fl (of_nat (unat b) / 255)"
  define mx mn where "mx = max cr (max cg cb)" and "mn = min cr (min cg cb)"
  note f = rgbToHsl_formulas [of "of_nat (unat r)" "of_nat (unat g)" "of_nat (unat b)",
      folded cr_def cg_def cb_def, folded mx_def mn_def]
  note rng = rgbToHsl_bytes(1) [of r g b]
  note dv = rgbToHsl_bytes(2) [of r g b, folded cr_def cg_def cb_def, folded mx_def mn_def]
  have "case rgbToHsl (of_nat (unat r)) (of_nat (unat g)) (of_nat (unat b)) of (h, s, l) \<Rightarrow>
               l = fl (fl (mx + mn) / 2)
               \<and> (mx = mn \<longrightarrow> h = 0 \<and> s = 0)
               \<and> (mx \<noteq> mn \<longrightarrow>
                     0 < fl (mx - mn) \<and> 0 < fl (mx + mn) \<and> 0 < fl (fl (2 - mx) - mn)
                     \<and> s = (if 1 / 2 < l then fl (fl (mx - mn) / fl (fl (2 - mx) - mn))
                            else fl (fl (mx - mn) / fl (mx + mn)))
                     \<and> h = fl (fl ((if mx = cr then fl (fl (fl (cg - cb) / fl (mx - mn)) + (if cg < cb then 6 else 0))
                                    else if mx = cg then fl (fl (fl (cb - cr) / fl (mx - mn)) + 2)
                                    else fl (fl (fl (cr - cg) / fl (mx - mn)) + 4)) / 6) * 360))
               \<and> 0 \<le> h \<and> h < 360 \<and> 0 \<le> s \<and> s \<le> 1 \<and> 0 \<le> l \<and> l \<le> 1"
  proof (cases "mx = mn")
    case True
    with rng show ?thesis
      unfolding f by simp
  next
    case False
    with rng dv show ?thesis
      unfolding f by simp
  qed
  then show "let r' = fl (of_nat (unat r) / 255); g' = fl (of_nat (unat g) / 255);
              b' = fl (of_nat (unat b) / 255);
              mx = max r' (max g' b'); mn = min r' (min g' b'); d = fl (mx - mn)
          in case rgbToHsl (of_nat (unat r)) (of_nat (unat g)) (of_nat (unat b)) of (h, s, l) \<Rightarrow>
               l = fl (fl (mx + mn) / 2)
               \<and> (mx = mn \<longrightarrow> h = 0 \<and> s = 0)
               \<and> (mx \<noteq> mn \<longrightarrow>
                     0 < d \<and> 0 < fl (mx + mn) \<and> 0 < fl (fl (2 - mx) - mn)
                     \<and> s = (if 1 / 2 < l then fl (d / fl (fl (2 - mx) - mn))
                            else fl (d / fl (mx + mn)))
                     \<and> h = fl (fl ((if mx = r' then fl (fl (fl (g' - b') / d) + (if g' < b' then 6 else 0))
                                    else if mx = g' then fl (fl (fl (b' - r') / d) + 2)
                                    else fl (fl (fl (r' - g') / d) + 4)) / 6) * 360))
               \<and> 0 \<le> h \<and> h < 360 \<and> 0 \<le> s \<and> s \<le> 1 \<and> 0 \<le> l \<and> l \<le> 1"
    unfolding Let_def cr_def cg_def cb_def mx_def mn_def .
  show "rgbToHsl 255 0 0 = (0, 1, 1 / 2)"
    by (rule rgbToHsl_255_0_0)
  show "rgbToHsl 0 255 0 = (120, 1, 1 / 2)"
    by (rule rgbToHsl_0_255_0)
  show "rgbToHsl 0 0 255 = (240, 1, 1 / 2)"
    by (rule rgbToHsl_0_0_255)
  show "snd (rgbToHsl 255 255 255) = (0, 1)"
    by (simp add: rgbToHsl_255_255_255)
  show "snd (rgbToHsl 0 0 0) = (0, 0)"
    by (simp add: rgbToHsl_0_0_0)
  show "rgbToHsl 65 39 65
       = (300, 4503599627370495 / 18014398509481984, 3673524401933581 / 18014398509481984)"
    by (rule rgbToHsl_65_39_65)
  show "rgbToHsl 220 196 210
       = (5717460464435201 / 17592186044416, 2299710448018977 / 9007199254740992,
          3673524401933581 / 4503599627370496)"
    by (rule rgbToHsl_220_196_210)
qed

theorem rgbToHsl_double_conversion_witness:
  "(let mx = fl (240 / 255); mn = fl (0 / 255)
    in 0 < fl (mx - mn) \<and> 0 < fl (mx + mn) \<and> 0 < fl (fl (2 - mx) - mn))
   \<and> (case rgbToHsl 240 0 20 of (h, s, l) \<Rightarrow>
         0 \<le> h \<and> h < 360 \<and> 0 \<le> s \<and> s \<le> 1 \<and> 0 \<le> l \<and> l \<le> 1)
   \<and> rgbToHsl 240 0 20 = (355, 1, 4238682002231055 / 9007199254740992)"
proof -
  have n: "(of_nat (unat (240 :: byte)) :: rat) = 240" "(of_nat (unat (0 :: byte)) :: rat) = 0"
    "(of_nat (unat (20 :: byte)) :: rat) = 20"
    by simp_all
  from rgbToHsl_double_conversion [of 240 0 20, unfolded n]
  show ?thesis
    by (simp add: Let_def rgbToHsl_240_0_20 fl_vals)
qed

subsection \<open>The matcher\<close>

lemma fl_60: "fl 60 = 60"
  by (rule fl_eqI' [where e = 5 and n = 8444249301319680]) simp_all

lemma fl_300: "fl 300 = 300"
  by (rule fl_eqI' [where e = 8 and n = 5277655813324800]) simp_all


text \<open>
  A hue that rgbToHsl returns lies in \<open>[0, 360)\<close>, so with reference hue 300 and
  tolerance 25 the second argument of the minimum is at least 60 and never decides.
\<close>

lemma hue_test_linear:
  assumes "0 \<le> h" "h < 360"
  shows "(min \<bar>fl (h - 300)\<bar> (fl (360 - \<bar>fl (h - 300)\<bar>)) \<le> 25) = (\<bar>fl (h - 300)\<bar> \<le> 25)"
proof -
  have "fl (- 300) \<le> fl (h - 300)"
    using assms(1) by (intro fl_mono) simp
  then have lo: "- 300 \<le> fl (h - 300)"
    by (simp add: fl_minus fl_300)
  have "fl (h - 300) \<le> fl 60"
    using assms(2) by (intro fl_mono) simp
  then have hi: "fl (h - 300) \<le> 60"
    by (simp only: fl_60)
  have "fl 60 \<le> fl (360 - \<bar>fl (h - 300)\<bar>)"
    using lo hi by (intro fl_mono) simp
  then have "60 \<le> fl (360 - \<bar>fl (h - 300)\<bar>)"
    by (simp only: fl_60)
  then show ?thesis
    by (simp add: min_def)
qed

text \<open>
  The claim of the spec as it words it fails where it takes the reference hue from a
  configuration: against reference hue 5 with tolerance 15 the four tests hold for the
  pixel (240, 0, 20), whose hue is 355, and the code, whose reference hue is the
  constant 300, classifies this pixel as not background.
\<close>

theorem matcher_reference_hue_counterexample:
  "rgbToHsl 240 0 20 = (355, 1, 4238682002231055 / 9007199254740992)
   \<and> spec_matches \<lparr>referenceHue = 5, hueTolerance = 15, minSaturation = 1 / 4,
         minLightness = 15 / 100, maxLightness = 95 / 100\<rparr> (rgbToHsl 240 0 20)
   \<and> \<not> isBackground 240 0 20"
  by (simp add: rgbToHsl_240_0_20 isBackground_240_0_20 spec_matches_def)

text \<open>
  C2, as the code has it. A pixel is classified as background exactly when all four
  tests hold on the HSL value that rgbToHsl computes for it, in binary64 arithmetic:
  the circular hue distance \<open>min |h - 300| (360 - |h - 300|)\<close> is at most 25, the
  saturation is at least 0.25, and the lightness lies between 0.15 and 0.95. The
  reference hue, the tolerance and the bounds are constants of the code and cannot be
  configured. With them the wraparound never decides: the hue test is the same as
  \<open>|h - 300| \<le> 25\<close>, and a pixel of hue 355 such as (240, 0, 20) is not background.
  Magenta (255, 0, 255) is background; (65, 39, 65) and (220, 196, 210), which exact
  arithmetic would put on the thresholds, are not.
\<close>

theorem isBackground_fixed_thresholds:
  "isBackground r g b =
     (case rgbToHsl (of_nat (unat r)) (of_nat (unat g)) (of_nat (unat b)) of (h, s, l) \<Rightarrow>
        min \<bar>fl (h - 300)\<bar> (fl (360 - \<bar>fl (h - 300)\<bar>)) \<le> 25
        \<and> 1 / 4 \<le> s \<and> fl (15 / 100) \<le> l \<and> l \<le> fl (95 / 100))
   \<and> isBackground r g b =
     (case rgbToHsl (of_nat (unat r)) (of_nat (unat g)) (of_nat (unat b)) of (h, s, l) \<Rightarrow>
        \<bar>fl (h - 300)\<bar> \<le> 25
        \<and> 1 / 4 \<le> s \<and> fl (15 / 100) \<le> l \<and> l \<le> fl (95 / 100))
   \<and> fl (15 / 100) = 5404319552844595 / 36028797018963968
   \<and> fl (95 / 100) = 4278419646001971 / 4503599627370496
   \<and> isBackground 255 0 255
   \<and> \<not> isBackground 65 39 65
   \<and> \<not> isBackground 220 196 210
   \<and> fst (rgbToHsl 240 0 20) = 355
   \<and> \<not> isBackground 240 0 20
   \<and> chromaKeyPass data = keyLoop isBackground 0 data"
proof (intro conjI)
  show 1: "isBackground r g b =
     (case rgbToHsl (of_nat (unat r)) (of_nat (unat g)) (of_nat (unat b)) of (h, s, l) \<Rightarrow>
        min \<bar>fl (h - 300)\<bar> (fl (360 - \<bar>fl (h - 300)\<bar>)) \<le> 25
        \<and> 1 / 4 \<le> s \<and> fl (15 / 100) \<le> l \<and> l \<le> fl (95 / 100))"
    unfolding isBackground_def Let_def by (rule refl)
  obtain h s l where v: "rgbToHsl (of_nat (unat r)) (of_nat (unat g)) (of_nat (unat b)) = (h, s, l)"
    by (cases "rgbToHsl (of_nat (unat r)) (of_nat (unat g)) (of_nat (unat b))")
  have "0 \<le> h" "h < 360"
    using rgbToHsl_bytes(1) [of r g b] unfolding v by simp_all
  then have "(min \<bar>fl (h - 300)\<bar> (fl (360 - \<bar>fl (h - 300)\<bar>)) \<le> 25) = (\<bar>fl (h - 300)\<bar> \<le> 25)"
    by (rule hue_test_linear)
  then show "isBackground r g b =
     (case rgbToHsl (of_nat (unat r)) (of_nat (unat g)) (of_nat (unat b)) of (h, s, l) \<Rightarrow>
        \<bar>fl (h - 300)\<bar> \<le> 25
        \<and> 1 / 4 \<le> s \<and> fl (15 / 100) \<le> l \<and> l \<le> fl (95 / 100))"
    unfolding 1 v by simp
  show "fl (15 / 100) = 5404319552844595 / 36028797018963968"
    by (simp add: fl_vals)
  show "fl (95 / 100) = 4278419646001971 / 4503599627370496"
    by (simp add: fl_vals)
  show "isBackground 255 0 255"
    by (rule isBackground_255_0_255)
  show "\<not> isBackground 65 39 65"
    by (rule isBackground_65_39_65)
  show "\<not> isBackground 220 196 210"
    by (rule isBackground_220_196_210)
  show "fst (rgbToHsl 240 0 20) = 355"
    by (simp add: rgbToHsl_240_0_20)
  show "\<not> isBackground 240 0 20"
    by (rule isBackground_240_0_20)
  show "chromaKeyPass data = keyLoop isBackground 0 data"
    by (rule chromaKeyPass_def)
qed

theorem isBackground_fixed_thresholds_witness:
  "isBackground 10 20 30 =
     (case rgbToHsl 10 20 30 of (h, s, l) \<Rightarrow>
        \<bar>fl (h - 300)\<bar> \<le> 25 \<and> 1 / 4 \<le> s \<and> fl (15 / 100) \<le> l \<and> l \<le> fl (95 / 100))
   \<and> \<not> isBackground 10 20 30"
proof -
  have n: "(of_nat (unat (10 :: byte)) :: rat) = 10" "(of_nat (unat (20 :: byte)) :: rat) = 20"
    "(of_nat (unat (30 :: byte)) :: rat) = 30"
    by simp_all
  note t = isBackground_fixed_thresholds [of 10 20 30 "[]", unfolded n]
  from t have e: "isBackground 10 20 30 =
     (case rgbToHsl 10 20 30 of (h, s, l) \<Rightarrow>
        \<bar>fl (h - 300)\<bar> \<le> 25 \<and> 1 / 4 \<le> s \<and> fl (15 / 100) \<le> l \<and> l \<le> fl (95 / 100))"
    by (elim conjE)
  have "\<not> (case rgbToHsl 10 20 30 of (h, s, l) \<Rightarrow>
        \<bar>fl (h - 300)\<bar> \<le> 25 \<and> 1 / 4 \<le> s \<and> fl (15 / 100) \<le> l \<and> l \<le> fl (95 / 100))"
    by (simp add: rgbToHsl_10_20_30 fl_vals)
  with e show ?thesis
    by simp
qed

subsection \<open>The pixel loop\<close>

lemma keyLoop_length: "length (keyLoop matches i data) = length data"
proof (induction matches i data rule: keyLoop.induct)
  case (1 matches i data)
  show ?case
  proof (cases "i < length data")
    case True
    then show ?thesis
      using "1.IH" [OF True] by (subst keyLoop.simps) simp
  next
    case False
    then show ?thesis by (subst keyLoop.simps) simp
  qed
qed

lemma keyLoop_nth:
  "j < length data \<Longrightarrow>
     keyLoop matches i data ! j =
       (if i \<le> j \<and> (j - i) mod 4 = 3 \<and> matches (data ! (j - 3)) (data ! (j - 2)) (data ! (j - 1))
        then 0 else data ! j)"
proof (induction matches i data arbitrary: j rule: keyLoop.induct)
  case (1 matches i data)
  show ?case
  proof (cases "i < length data")
    case False
    with "1.prems" have "\<not> i \<le> j" by simp
    with False show ?thesis by (subst keyLoop.simps) simp
  next
    case True
    define hit where "hit = (i + 2 < length data \<and> matches (data ! i) (data ! (i + 1)) (data ! (i + 2)))"
    define data' where "data' = (if hit then data[i + 3 := 0] else data)"
    have len: "length data' = length data"
      by (simp add: data'_def)
    have unfold: "keyLoop matches i data = keyLoop matches (i + 4) data'"
      using True by (subst keyLoop.simps) (simp add: data'_def hit_def)
    have other: "data' ! k = data ! k" if "k \<noteq> i + 3" for k
      using that by (simp add: data'_def)
    have ih: "keyLoop matches (i + 4) data' ! j =
        (if i + 4 \<le> j \<and> (j - (i + 4)) mod 4 = 3
            \<and> matches (data' ! (j - 3)) (data' ! (j - 2)) (data' ! (j - 1))
         then 0 else data' ! j)"
    proof -
      have "j < length data'"
        using "1.prems" len by simp
      from "1.IH" [OF True this [unfolded data'_def hit_def]] show ?thesis
        unfolding data'_def hit_def .
    qed
    consider (before) "j < i + 3" | (here) "j = i + 3" | (after) "i + 4 \<le> j"
      by linarith
    then show ?thesis
    proof cases
      case before
      then have "\<not> (i \<le> j \<and> (j - i) mod 4 = 3)"
        by (cases "i \<le> j") auto
      moreover have "data' ! j = data ! j"
        using before by (simp add: other)
      moreover have "\<not> i + 4 \<le> j"
        using before by simp
      ultimately show ?thesis
        unfolding unfold ih by auto
    next
      case here
      have "data' ! j = (if hit then 0 else data ! j)"
        using "1.prems" here by (simp add: data'_def)
      moreover have "hit = matches (data ! (j - 3)) (data ! (j - 2)) (data ! (j - 1))"
        using "1.prems" here by (simp add: hit_def numeral_3_eq_3 numeral_2_eq_2)
      moreover have "\<not> i + 4 \<le> j" "i \<le> j \<and> (j - i) mod 4 = 3"
        using here by simp_all
      ultimately show ?thesis
        unfolding unfold ih by auto
    next
      case after
      have m: "(j - (i + 4)) mod 4 = (j - i) mod 4"
      proof -
        have "j - i = (j - (i + 4)) + 4"
          using after by simp
        then show ?thesis
          by (simp only: mod_add_self2)
      qed
      show ?thesis
      proof (cases "(j - i) mod 4 = 3")
        case False
        moreover have "data' ! j = data ! j"
          using after by (simp add: other)
        ultimately show ?thesis
          unfolding unfold ih m by auto
      next
        case True
        with after have "i + 7 \<le> j"
          by (cases "j = i + 4"; cases "j = i + 5"; cases "j = i + 6") auto
        then have "data' ! (j - 3) = data ! (j - 3)" "data' ! (j - 2) = data ! (j - 2)"
          "data' ! (j - 1) = data ! (j - 1)" "data' ! j = data ! j"
          by (simp_all add: other)
        moreover have "i \<le> j"
          using after by simp
        ultimately show ?thesis
          unfolding unfold ih m using after True by auto
      qed
    qed
  qed
qed

lemma alpha_index: "j mod 4 = 3 \<Longrightarrow> \<exists>q. j = 4 * q + 3" for j :: nat
  by (metis mult_div_mod_eq)

lemma keyLoop_channel:
  assumes "4 * p + 3 < length data"
  shows "keyLoop matches 0 data ! (4 * p) = data ! (4 * p)"
    and "keyLoop matches 0 data ! (4 * p + 1) = data ! (4 * p + 1)"
    and "keyLoop matches 0 data ! (4 * p + 2) = data ! (4 * p + 2)"
    and "keyLoop matches 0 data ! (4 * p + 3) =
           (if matches (data ! (4 * p)) (data ! (4 * p + 1)) (data ! (4 * p + 2)) then 0
            else data ! (4 * p + 3))"
proof -
  have "(4 * p + k) mod 4 = k mod 4" for k
    by (rule mod_mult_self4)
  from this [of 0] this [of 1] this [of 2] this [of 3]
  have m: "(4 * p) mod 4 = 0" "(4 * p + 1) mod 4 = 1" "(4 * p + 2) mod 4 = 2" "(4 * p + 3) mod 4 = 3"
    by simp_all
  have l: "4 * p < length data" "4 * p + 1 < length data" "4 * p + 2 < length data"
    using assms by simp_all
  show "keyLoop matches 0 data ! (4 * p) = data ! (4 * p)"
    using keyLoop_nth [OF l(1), of matches 0] m(1) by simp
  show "keyLoop matches 0 data ! (4 * p + 1) = data ! (4 * p + 1)"
    using keyLoop_nth [OF l(2), of matches 0] m(2) by simp
  show "keyLoop matches 0 data ! (4 * p + 2) = data ! (4 * p + 2)"
    using keyLoop_nth [OF l(3), of matches 0] m(3) by simp
  have d: "4 * p + 3 - 3 = 4 * p" "4 * p + 3 - 2 = 4 * p + 1" "4 * p + 3 - 1 = 4 * p + 2"
    by simp_all
  show "keyLoop matches 0 data ! (4 * p + 3) =
           (if matches (data ! (4 * p)) (data ! (4 * p + 1)) (data ! (4 * p + 2)) then 0
            else data ! (4 * p + 3))"
    using keyLoop_nth [OF assms, of matches 0] m(4) unfolding d by simp
qed

lemma keyLoop_idem: "keyLoop matches 0 (keyLoop matches 0 data) = keyLoop matches 0 data"
proof (rule nth_equalityI)
  show "length (keyLoop matches 0 (keyLoop matches 0 data)) = length (keyLoop matches 0 data)"
    by (simp add: keyLoop_length)
next
  fix j
  assume "j < length (keyLoop matches 0 (keyLoop matches 0 data))"
  then have j: "j < length data"
    by (simp add: keyLoop_length)
  let ?out = "keyLoop matches 0 data"
  have j': "j < length ?out"
    using j by (simp add: keyLoop_length)
  have step: "keyLoop matches 0 ?out ! j =
      (if j mod 4 = 3 \<and> matches (?out ! (j - 3)) (?out ! (j - 2)) (?out ! (j - 1))
       then 0 else ?out ! j)"
    using keyLoop_nth [OF j', of matches 0] by simp
  show "keyLoop matches 0 ?out ! j = ?out ! j"
  proof (cases "j mod 4 = 3")
    case False
    then show ?thesis by (simp add: step)
  next
    case True
    then obtain q where q: "j = 4 * q + 3"
      using alpha_index by blast
    have lt: "4 * q + 3 < length data"
      using j q by simp
    have d: "4 * q + 3 - 3 = 4 * q" "4 * q + 3 - 2 = 4 * q + 1" "4 * q + 3 - 1 = 4 * q + 2"
      by simp_all
    have "(4 * q + 3) mod 4 = 3 mod (4::nat)"
      by (rule mod_mult_self4)
    then have m: "(4 * q + 3) mod 4 = 3"
      by simp
    note step' = step [unfolded q d m]
    show ?thesis
      unfolding q step' keyLoop_channel [OF lt] by simp
  qed
qed

text \<open>
  C4. On a buffer of \<open>n\<close> whole pixels the loop keeps the length, and every pixel of
  the result has the R, G and B bytes of the input; its alpha is 0 when the pixel is
  classified as background and the input's alpha otherwise. So a pixel that is not
  background is the same in all four bytes. This holds whatever the classification of
  the R, G and B bytes is, and the pass of makeMagentaTransparent is the loop with the
  test isBackground.
\<close>

theorem chroma_key_changes_background_alpha_only:
  "length data = 4 * n \<Longrightarrow>
     length (keyLoop matches 0 data) = length data
     \<and> (\<forall>p<n. pixel (keyLoop matches 0 data) p =
           (case pixel data p of (r, g, b, a) \<Rightarrow>
              (r, g, b, if matches r g b then 0 else a)))
     \<and> chromaKeyPass data = keyLoop isBackground 0 data"
proof (intro conjI allI impI)
  show "length (keyLoop matches 0 data) = length data"
    by (rule keyLoop_length)
  show "chromaKeyPass data = keyLoop isBackground 0 data"
    by (rule chromaKeyPass_def)
next
  fix p
  assume "length data = 4 * n" "p < n"
  then have lt: "4 * p + 3 < length data"
    by simp
  show "pixel (keyLoop matches 0 data) p =
           (case pixel data p of (r, g, b, a) \<Rightarrow>
              (r, g, b, if matches r g b then 0 else a))"
    unfolding pixel_def keyLoop_channel [OF lt] by simp
qed

theorem chroma_key_changes_background_alpha_only_witness:
  "length (chromaKeyPass [255, 0, 255, 255, 65, 39, 65, 255]) = 8
   \<and> pixel (chromaKeyPass [255, 0, 255, 255, 65, 39, 65, 255]) 0 = (255, 0, 255, 0)
   \<and> pixel (chromaKeyPass [255, 0, 255, 255, 65, 39, 65, 255]) 1 = (65, 39, 65, 255)"
proof -
  have len: "length [255, 0, 255, 255, 65, 39, 65, 255 :: byte] = 4 * 2"
    by simp
  note t = chroma_key_changes_background_alpha_only [OF len, of isBackground]
  from t have 0: "pixel (keyLoop isBackground 0 [255, 0, 255, 255, 65, 39, 65, 255]) 0 =
      (case pixel [255, 0, 255, 255, 65, 39, 65, 255] 0 of (r, g, b, a) \<Rightarrow>
              (r, g, b, if isBackground r g b then 0 else a))"
    by simp
  from t have 1: "pixel (keyLoop isBackground 0 [255, 0, 255, 255, 65, 39, 65, 255]) 1 =
      (case pixel [255, 0, 255, 255, 65, 39, 65, 255] 1 of (r, g, b, a) \<Rightarrow>
              (r, g, b, if isBackground r g b then 0 else a))"
    by simp
  have p0: "pixel [255, 0, 255, 255, 65, 39, 65, 255] 0 = (255, 0, 255, 255)"
    by (simp add: pixel_def)
  have p1: "pixel [255, 0, 255, 255, 65, 39, 65, 255] 1 = (65, 39, 65, 255)"
    by (simp add: pixel_def)
  from t have l: "length (keyLoop isBackground 0 [255, 0, 255, 255, 65, 39, 65, 255]) =
      length [255, 0, 255, 255, 65, 39, 65, 255 :: byte]"
    by blast
  show ?thesis
    unfolding chromaKeyPass_def
    using l 0 1 p0 p1 by (simp add: isBackground_255_0_255 isBackground_65_39_65)
qed

text \<open>
  C10. Running the pass on its own result changes nothing: the classification reads
  only R, G and B, which the pass leaves alone, so the second run sets to 0 only alpha
  bytes that are 0 already. This holds for every array, whatever its length.
\<close>

theorem chroma_key_idempotent: "chromaKeyPass (chromaKeyPass data) = chromaKeyPass data"
  by (simp add: chromaKeyPass_def keyLoop_idem)

theorem chroma_key_idempotent_witness:
  "chromaKeyPass (chromaKeyPass [255, 0, 255, 255, 10, 20, 30, 255])
     = chromaKeyPass [255, 0, 255, 255, 10, 20, 30, 255]"
  using chroma_key_idempotent [of "[255, 0, 255, 255, 10, 20, 30, 255]"] .

end
